theory Spec2Isabelle
  imports Complex_Main
begin

text \<open>
  A model of the terrain and character-controller code of the repository: the procedural
  heightmap generator (\<open>src/utils/heightmap.js\<close>), the terrain builder with its height
  queries, mesh and collision heightfield (\<open>src/utils/terrain.js\<close>) and the per-frame
  update of the first-person controller (\<open>src/utils/controller.js\<close>). The definitions come
  first, the properties proved of them afterwards.
\<close>

section \<open>JavaScript numbers\<close>

text \<open>
  A JavaScript number is modelled as an exact real, one of the two infinities, or NaN.
  Rounding is modelled in two places, where a property depends on it: the stores of the
  heightmap generator into its \<open>Float32Array\<close> (single precision), and the movement vector
  of the controller, which is also given in double precision. Elsewhere arithmetic is
  exact, and the sign of zero is not modelled. The value \<open>undefined\<close>,
  which a typed array returns for an index outside it, is only ever used in arithmetic,
  compared with \<open><\<close>, or stored into another typed array in this program, where it behaves
  as NaN; reading outside an array therefore yields \<open>NaN\<close>.
\<close>

datatype jsnum = Num real | PosInf | NegInf | NaN

fun js_neg :: "jsnum \<Rightarrow> jsnum" where
  "js_neg (Num a) = Num (- a)"
| "js_neg PosInf = NegInf"
| "js_neg NegInf = PosInf"
| "js_neg NaN = NaN"

fun js_add :: "jsnum \<Rightarrow> jsnum \<Rightarrow> jsnum" where
  "js_add (Num a) (Num b) = Num (a + b)"
| "js_add NaN _ = NaN"
| "js_add _ NaN = NaN"
| "js_add PosInf NegInf = NaN"
| "js_add NegInf PosInf = NaN"
| "js_add PosInf _ = PosInf"
| "js_add _ PosInf = PosInf"
| "js_add NegInf _ = NegInf"
| "js_add _ NegInf = NegInf"

definition js_sub :: "jsnum \<Rightarrow> jsnum \<Rightarrow> jsnum" where
  "js_sub a b = js_add a (js_neg b)"

fun js_mul :: "jsnum \<Rightarrow> jsnum \<Rightarrow> jsnum" where
  "js_mul (Num a) (Num b) = Num (a * b)"
| "js_mul NaN _ = NaN"
| "js_mul _ NaN = NaN"
| "js_mul PosInf (Num b) = (if b = 0 then NaN else if 0 < b then PosInf else NegInf)"
| "js_mul NegInf (Num b) = (if b = 0 then NaN else if 0 < b then NegInf else PosInf)"
| "js_mul (Num a) PosInf = (if a = 0 then NaN else if 0 < a then PosInf else NegInf)"
| "js_mul (Num a) NegInf = (if a = 0 then NaN else if 0 < a then NegInf else PosInf)"
| "js_mul PosInf PosInf = PosInf"
| "js_mul NegInf NegInf = PosInf"
| "js_mul PosInf NegInf = NegInf"
| "js_mul NegInf PosInf = NegInf"

fun js_div :: "jsnum \<Rightarrow> jsnum \<Rightarrow> jsnum" where
  "js_div (Num a) (Num b) =
     (if b = 0 then (if a = 0 then NaN else if 0 < a then PosInf else NegInf)
      else Num (a / b))"
| "js_div NaN _ = NaN"
| "js_div _ NaN = NaN"
| "js_div (Num a) PosInf = Num 0"
| "js_div (Num a) NegInf = Num 0"
| "js_div PosInf (Num b) = (if 0 \<le> b then PosInf else NegInf)"
| "js_div NegInf (Num b) = (if 0 \<le> b then NegInf else PosInf)"
| "js_div _ _ = NaN"

fun js_lt :: "jsnum \<Rightarrow> jsnum \<Rightarrow> bool" where
  "js_lt (Num a) (Num b) = (a < b)"
| "js_lt NaN _ = False"
| "js_lt _ NaN = False"
| "js_lt _ NegInf = False"
| "js_lt NegInf _ = True"
| "js_lt PosInf _ = False"
| "js_lt _ PosInf = True"

text \<open>\<open>Math.max\<close> and \<open>Math.min\<close> of two arguments: NaN when either argument is NaN.\<close>

definition js_max :: "jsnum \<Rightarrow> jsnum \<Rightarrow> jsnum" where
  "js_max a b = (if a = NaN \<or> b = NaN then NaN else if js_lt a b then b else a)"

definition js_min :: "jsnum \<Rightarrow> jsnum \<Rightarrow> jsnum" where
  "js_min a b = (if a = NaN \<or> b = NaN then NaN else if js_lt b a then b else a)"

fun js_floor :: "jsnum \<Rightarrow> jsnum" where
  "js_floor (Num a) = Num (of_int \<lfloor>a\<rfloor>)"
| "js_floor x = x"

text \<open>
  Typed arrays are lists. A read outside the array gives \<open>undefined\<close> (here NaN), a write
  outside it is ignored (as \<open>list_update\<close> does). \<open>tget\<close> reads at a loop counter,
  \<open>js_get\<close> at an arbitrary number: only a non-negative integer below the length
  is an index.
\<close>

definition tget :: "jsnum list \<Rightarrow> nat \<Rightarrow> jsnum" where
  "tget xs i = (if i < length xs then xs ! i else NaN)"

definition js_get :: "jsnum list \<Rightarrow> jsnum \<Rightarrow> jsnum" where
  "js_get xs i =
     (case i of
        Num r \<Rightarrow> (if r = of_int \<lfloor>r\<rfloor> \<and> 0 \<le> r then tget xs (nat \<lfloor>r\<rfloor>) else NaN)
      | _ \<Rightarrow> NaN)"

section \<open>Rounding to floating-point formats\<close>

text \<open>
  Where the rounding of a result matters to a property, it is modelled by rounding the
  exact result to the nearest number with \<open>p\<close> significant bits, ties to the even
  significand: \<open>p = 53\<close> for a double, \<open>p = 24\<close> for a value stored in a \<open>Float32Array\<close>.
  The exponent range is not bounded (no overflow to an infinity, no subnormal numbers);
  the values rounded in this development are far from both ends.
\<close>

definition roundEven :: "real \<Rightarrow> int" where
  "roundEven r =
     (let f = \<lfloor>r\<rfloor>; d = r - of_int f
      in if d < 1 / 2 then f else if 1 / 2 < d then f + 1 else if even f then f else f + 1)"

definition roundTo :: "nat \<Rightarrow> real \<Rightarrow> real" where
  "roundTo p x =
     (if x = 0 then 0
      else (let e = \<lfloor>log 2 \<bar>x\<bar>\<rfloor>;
                u = 2 powr of_int (e - int p + 1)
            in of_int (roundEven (x / u)) * u))"

definition double :: "real \<Rightarrow> real" where
  "double x = roundTo 53 x"

definition fround :: "real \<Rightarrow> real" where
  "fround x = roundTo 24 x"


text \<open>
  The relative distance used in the error analysis of double-precision computations:
  \<open>closeTo k a b\<close> says that the non-negative numbers \<open>a\<close> and \<open>b\<close> differ by at most
  \<open>k\<close> roundings, each of which changes a number by a factor between \<open>1 - 1 / 2 ^ 53\<close> and
  its inverse.
\<close>

definition closeTo :: "nat \<Rightarrow> real \<Rightarrow> real \<Rightarrow> bool" where
  "closeTo k a b \<longleftrightarrow> a * (1 - 1 / 2 ^ 53) ^ k \<le> b \<and> b * (1 - 1 / 2 ^ 53) ^ k \<le> a"
section \<open>Terrain model (src/utils/terrain.js)\<close>

datatype error = TypeError | RangeError

record TerrainBuilder =
  heights :: "jsnum list"
  sizeN :: int
  cols :: int
  worldSize :: real
  heightScale :: real
  heightOffset :: real
  cellSize :: jsnum

text \<open>
  The constructor stores its arguments and derives \<open>cols\<close> and \<open>cellSize\<close>. Its result type
  has room for an exception (\<open>Inl\<close>), but the constructor contains no check and no
  \<open>throw\<close>: every call returns an object (\<open>Inr\<close>). The defaults of the source
  (\<open>worldSize = 200\<close>, \<open>heightScale = 14\<close>, \<open>heightOffset = 0\<close>) are what a caller passes who
  gives no value.
\<close>

definition TerrainBuilder_new ::
  "jsnum list \<Rightarrow> int \<Rightarrow> real \<Rightarrow> real \<Rightarrow> real \<Rightarrow> error + TerrainBuilder" where
  "TerrainBuilder_new hs n ws hsc hoff =
     Inr \<lparr> heights = hs, sizeN = n, cols = n - 1, worldSize = ws, heightScale = hsc,
           heightOffset = hoff, cellSize = js_div (Num ws) (Num (of_int (n - 1))) \<rparr>"

definition getHeight :: "TerrainBuilder \<Rightarrow> jsnum \<Rightarrow> jsnum \<Rightarrow> jsnum" where
  "getHeight t row col =
     (let row' = js_max (Num 0) (js_min (Num (of_int (sizeN t - 1))) row);
          col' = js_max (Num 0) (js_min (Num (of_int (sizeN t - 1))) col)
      in js_add
           (js_mul (js_get (heights t) (js_add (js_mul row' (Num (of_int (sizeN t)))) col'))
                   (Num (heightScale t)))
           (Num (heightOffset t)))"

definition getHeightAtWorld :: "TerrainBuilder \<Rightarrow> jsnum \<Rightarrow> jsnum \<Rightarrow> jsnum" where
  "getHeightAtWorld t x z =
     (let gx = js_div (js_add x (Num (worldSize t / 2))) (cellSize t);
          gz = js_div (js_add z (Num (worldSize t / 2))) (cellSize t);
          col0 = js_floor gx;
          row0 = js_floor gz;
          col1 = js_add col0 (Num 1);
          row1 = js_add row0 (Num 1);
          fx = js_sub gx col0;
          fz = js_sub gz row0;
          h00 = getHeight t row0 col0;
          h10 = getHeight t row0 col1;
          h01 = getHeight t row1 col0;
          h11 = getHeight t row1 col1
      in js_add
           (js_add
              (js_add (js_mul (js_mul h00 (js_sub (Num 1) fx)) (js_sub (Num 1) fz))
                      (js_mul (js_mul h10 fx) (js_sub (Num 1) fz)))
              (js_mul (js_mul h01 (js_sub (Num 1) fx)) fz))
           (js_mul (js_mul h11 fx) fz))"

text \<open>
  The world position at which \<open>buildMesh\<close> places the grid vertex with index \<open>k\<close> along
  one axis: \<open>k * cellSize - worldSize / 2\<close>.
\<close>

definition vertexCoord :: "TerrainBuilder \<Rightarrow> int \<Rightarrow> jsnum" where
  "vertexCoord t k = js_sub (js_mul (Num (of_int k)) (cellSize t)) (Num (worldSize t / 2))"

text \<open>The specification's clamping of a grid index into \<open>[0, N - 1]\<close>.\<close>

definition clampIndex :: "int \<Rightarrow> int \<Rightarrow> int" where
  "clampIndex n i = (if i < 0 then 0 else if n - 1 < i then n - 1 else i)"

text \<open>Every sample of the grid is a finite number.\<close>

definition finite_samples :: "jsnum list \<Rightarrow> bool" where
  "finite_samples hs = list_all (\<lambda>h. case h of Num r \<Rightarrow> True | _ \<Rightarrow> False) hs"

record heightfield =
  nrows :: int
  ncols :: int
  hf_heights :: "jsnum list"
  scale :: "real \<times> real \<times> real"

text \<open>
  The two loops of \<open>buildRapierHeightfield\<close>: \<open>transposeCols\<close> is the inner loop over
  \<open>col\<close> for one \<open>row\<close> (run up to \<open>m\<close>), \<open>transposeRows\<close> the outer loop over \<open>row\<close>.
\<close>

definition transposeCols :: "jsnum list \<Rightarrow> nat \<Rightarrow> nat \<Rightarrow> nat \<Rightarrow> jsnum list \<Rightarrow> jsnum list" where
  "transposeCols hs n row m arr =
     fold (\<lambda>col arr. arr[col * n + row := tget hs (row * n + col)]) [0..<m] arr"

definition transposeRows :: "jsnum list \<Rightarrow> nat \<Rightarrow> nat \<Rightarrow> jsnum list \<Rightarrow> jsnum list" where
  "transposeRows hs n m arr = fold (\<lambda>row arr. transposeCols hs n row n arr) [0..<m] arr"

definition buildRapierHeightfield :: "TerrainBuilder \<Rightarrow> heightfield" where
  "buildRapierHeightfield t =
     (let n = nat (sizeN t);
          nrows = sizeN t - 1;
          ncols = sizeN t - 1;
          scale = (worldSize t, heightScale t, worldSize t);
          rapierHeights0 = replicate (nat ((nrows + 1) * (ncols + 1))) (Num 0);
          rapierHeights = transposeRows (heights t) n n rapierHeights0
      in \<lparr> nrows = nrows, ncols = ncols, hf_heights = rapierHeights, scale = scale \<rparr>)"

section \<open>Procedural heightmap (src/utils/heightmap.js)\<close>

text \<open>
  The hash of \<open>generateProceduralHeightmap\<close>. Inside the generator every argument is
  finite (the loops only run for \<open>size \<ge> 1\<close>), so these local functions work on reals.
\<close>

definition noise :: "real \<Rightarrow> real \<Rightarrow> real" where
  "noise x y = (let n = sin (x * 127.1 + y * 311.7) * 43758.5453123 in n - of_int \<lfloor>n\<rfloor>)"

text \<open>
  \<open>smoothNoise\<close>, with the hash it calls as a parameter. The function returns at its first
  \<open>return\<close> statement; the second one, under the comment ``Proper bilinear'', is never
  reached. \<open>properBilinear\<close> is the expression of that unreachable statement.
\<close>

definition smoothNoiseH :: "(real \<Rightarrow> real \<Rightarrow> real) \<Rightarrow> real \<Rightarrow> real \<Rightarrow> real" where
  "smoothNoiseH h x y =
     (let ix = of_int \<lfloor>x\<rfloor>; iy = of_int \<lfloor>y\<rfloor>;
          fx = x - ix; fy = y - iy;
          ux = fx * fx * (3 - 2 * fx);
          uy = fy * fy * (3 - 2 * fy);
          a = h ix iy;
          b = h (ix + 1) iy;
          c = h ix (iy + 1);
          d = h (ix + 1) (iy + 1)
      in a + (b - a) * ux + (c - a) * uy + (d - a) * ux * uy + (b - a) * (1 - uy) * 0)"

definition properBilinearH :: "(real \<Rightarrow> real \<Rightarrow> real) \<Rightarrow> real \<Rightarrow> real \<Rightarrow> real" where
  "properBilinearH h x y =
     (let ix = of_int \<lfloor>x\<rfloor>; iy = of_int \<lfloor>y\<rfloor>;
          fx = x - ix; fy = y - iy;
          ux = fx * fx * (3 - 2 * fx);
          uy = fy * fy * (3 - 2 * fy);
          a = h ix iy;
          b = h (ix + 1) iy;
          c = h ix (iy + 1);
          d = h (ix + 1) (iy + 1)
      in a * (1 - ux) * (1 - uy) + b * ux * (1 - uy) + c * (1 - ux) * uy + d * ux * uy)"

definition smoothNoise :: "real \<Rightarrow> real \<Rightarrow> real" where
  "smoothNoise = smoothNoiseH noise"

definition properBilinear :: "real \<Rightarrow> real \<Rightarrow> real" where
  "properBilinear = properBilinearH noise"













section \<open>First-person controller (src/utils/controller.js)\<close>

text \<open>
  The numbers of the controller (time step, angles, velocities, tuning constants) are
  finite and no operation on them leaves the finite numbers, so they are reals. The
  methods of \<open>THREE.Vector3\<close> that \<open>update\<close> calls belong to the three.js library; they
  are written here as the library documents them: \<open>normalize\<close> divides by the length,
  or by 1 when the length is 0.
\<close>

type_synonym vec3 = "real \<times> real \<times> real"

definition addScaledVector :: "vec3 \<Rightarrow> vec3 \<Rightarrow> real \<Rightarrow> vec3" where
  "addScaledVector u v s =
     (case u of (ux, uy, uz) \<Rightarrow> case v of (vx, vy, vz) \<Rightarrow> (ux + vx * s, uy + vy * s, uz + vz * s))"

definition lengthSq :: "vec3 \<Rightarrow> real" where
  "lengthSq v = (case v of (vx, vy, vz) \<Rightarrow> vx * vx + vy * vy + vz * vz)"

definition length3 :: "vec3 \<Rightarrow> real" where
  "length3 v = sqrt (lengthSq v)"

definition multiplyScalar :: "vec3 \<Rightarrow> real \<Rightarrow> vec3" where
  "multiplyScalar v s = (case v of (vx, vy, vz) \<Rightarrow> (vx * s, vy * s, vz * s))"

definition normalize :: "vec3 \<Rightarrow> vec3" where
  "normalize v = multiplyScalar v (1 / (if length3 v = 0 then 1 else length3 v))"

text \<open>
  The state of an \<open>FPSController\<close>. \<open>keys\<close> is the object filled by the key handlers:
  a key code that was never pressed is absent (\<open>undefined\<close>, falsy). The rigid body is
  represented by its current translation and the next kinematic translation requested
  from the physics engine; the camera by its position and its two rotation angles.
\<close>

record FPSController =
  keys :: "string \<Rightarrow> bool option"
  yaw :: real
  pitch :: real
  locked :: bool
  velY :: real
  isGrounded :: bool
  jumpCooldown :: real
  MOVE_SPEED :: real
  SPRINT_MULT :: real
  JUMP_FORCE :: real
  GRAVITY :: real
  EYE_HEIGHT :: real
  SENSITIVITY :: real
  fwd :: vec3
  rgt :: vec3
  mov :: vec3
  bodyTranslation :: vec3
  bodyNextTranslation :: vec3
  cameraPosition :: vec3
  cameraRotationY :: real
  cameraRotationX :: real

text \<open>
  The state after the constructor: the body is created at \<open>(0, 30, 0)\<close>; the camera is the
  one \<open>main.js\<close> passes, freshly created at the origin and unrotated.
\<close>

definition FPSController_new :: FPSController where
  "FPSController_new =
     \<lparr> keys = (\<lambda>code. None), yaw = 0, pitch = 0, locked = False,
       velY = 0, isGrounded = False, jumpCooldown = 0,
       MOVE_SPEED = 8, SPRINT_MULT = 1.8, JUMP_FORCE = 9, GRAVITY = - 25,
       EYE_HEIGHT = 1.2, SENSITIVITY = 0.002,
       fwd = (0, 0, 0), rgt = (0, 0, 0), mov = (0, 0, 0),
       bodyTranslation = (0, 30, 0), bodyNextTranslation = (0, 30, 0),
       cameraPosition = (0, 0, 0), cameraRotationY = 0, cameraRotationX = 0 \<rparr>"

definition pressed :: "FPSController \<Rightarrow> string \<Rightarrow> bool" where
  "pressed c code = (keys c code = Some True)"

text \<open>The \<open>keydown\<close> and \<open>keyup\<close> handlers.\<close>

definition keydown :: "string \<Rightarrow> FPSController \<Rightarrow> FPSController" where
  "keydown code c = c\<lparr>keys := (keys c)(code \<mapsto> True)\<rparr>"

definition keyup :: "string \<Rightarrow> FPSController \<Rightarrow> FPSController" where
  "keyup code c = c\<lparr>keys := (keys c)(code \<mapsto> False)\<rparr>"

text \<open>The target speed of a step: the walking speed, times the multiplier while sprinting.\<close>

definition targetSpeed :: "FPSController \<Rightarrow> real" where
  "targetSpeed c =
     MOVE_SPEED c * (if pressed c ''ShiftLeft'' \<or> pressed c ''ShiftRight'' then SPRINT_MULT c else 1.0)"

text \<open>
  The horizontal movement vector \<open>_mov\<close> that \<open>update\<close> builds: \<open>rawIntent\<close> is the sum of
  the pressed directions, \<open>moveIntent\<close> the vector after the dead-zone test.
\<close>

definition rawIntent :: "FPSController \<Rightarrow> vec3" where
  "rawIntent c =
     (let f = (- sin (yaw c), 0, - cos (yaw c));
          r = (cos (yaw c), 0, - sin (yaw c));
          m0 = (0, 0, 0);
          m1 = (if pressed c ''KeyW'' \<or> pressed c ''ArrowUp'' then addScaledVector m0 f 1 else m0);
          m2 = (if pressed c ''KeyS'' \<or> pressed c ''ArrowDown'' then addScaledVector m1 f (- 1) else m1);
          m3 = (if pressed c ''KeyA'' \<or> pressed c ''ArrowLeft'' then addScaledVector m2 r (- 1) else m2);
          m4 = (if pressed c ''KeyD'' \<or> pressed c ''ArrowRight'' then addScaledVector m3 r 1 else m3)
      in m4)"

definition moveIntent :: "FPSController \<Rightarrow> vec3" where
  "moveIntent c =
     (let speed = targetSpeed c;
          m4 = rawIntent c
      in if lengthSq m4 > 0.001 then multiplyScalar (normalize m4) speed else m4)"

text \<open>
  One call of \<open>update(dt)\<close>. The character controller of the physics engine is outside
  the repository: \<open>resolve\<close> stands for \<open>computeColliderMovement\<close> followed by
  \<open>computedMovement\<close> and \<open>computedGrounded\<close>, and maps the desired displacement to the
  corrected one and the grounded flag. The result is the new state and the returned
  \<open>(position, speed, grounded)\<close>.
\<close>

definition update ::
  "(vec3 \<Rightarrow> vec3 \<times> bool) \<Rightarrow> real \<Rightarrow> FPSController \<Rightarrow> FPSController \<times> (vec3 \<times> real \<times> bool)" where
  "update resolve dt c =
     (let cd1 = (if jumpCooldown c > 0 then jumpCooldown c - dt else jumpCooldown c);
          m = moveIntent c;
          v1 = velY c + GRAVITY c * dt;
          v2 = (if isGrounded c \<and> v1 < 0 then - 2 else v1);
          jump = (pressed c ''Space'' \<and> isGrounded c \<and> cd1 \<le> 0);
          v3 = (if jump then JUMP_FORCE c else v2);
          cd2 = (if jump then 0.4 else cd1);
          desired = (fst m * dt, v3 * dt, snd (snd m) * dt);
          corrected = fst (resolve desired);
          grounded = snd (resolve desired);
          cur = bodyTranslation c;
          nxt = (fst cur + fst corrected, fst (snd cur) + fst (snd corrected),
                 snd (snd cur) + snd (snd corrected));
          pos = bodyTranslation c
      in (c\<lparr> jumpCooldown := cd2,
             fwd := (- sin (yaw c), 0, - cos (yaw c)),
             rgt := (cos (yaw c), 0, - sin (yaw c)),
             mov := m,
             velY := v3,
             isGrounded := grounded,
             bodyNextTranslation := nxt,
             cameraPosition := (fst pos, fst (snd pos) + EYE_HEIGHT c, snd (snd pos)),
             cameraRotationY := yaw c,
             cameraRotationX := pitch c \<rparr>,
          (pos, length3 m, grounded)))"

subsection \<open>The movement vector in double precision\<close>

text \<open>
  The same computation of \<open>_mov\<close> with every arithmetic result rounded to a double, as the
  JavaScript engine computes it. The numbers read from the state and the literals are
  rounded too (a no-op on a number that is a double). ECMAScript leaves the accuracy of
  \<open>Math.sin\<close> and \<open>Math.cos\<close> to the implementation except at arguments such as 0; here they
  are the rounded exact values, which agrees with every implementation at \<open>yaw = 0\<close>.
\<close>

definition d_add :: "real \<Rightarrow> real \<Rightarrow> real" where
  "d_add a b = double (a + b)"

definition d_mul :: "real \<Rightarrow> real \<Rightarrow> real" where
  "d_mul a b = double (a * b)"

definition d_div :: "real \<Rightarrow> real \<Rightarrow> real" where
  "d_div a b = double (a / b)"

definition d_sqrt :: "real \<Rightarrow> real" where
  "d_sqrt a = double (sqrt a)"

definition addScaledVectorD :: "vec3 \<Rightarrow> vec3 \<Rightarrow> real \<Rightarrow> vec3" where
  "addScaledVectorD u v s =
     (case u of (ux, uy, uz) \<Rightarrow> case v of (vx, vy, vz) \<Rightarrow>
        (d_add ux (d_mul vx s), d_add uy (d_mul vy s), d_add uz (d_mul vz s)))"

definition lengthSqD :: "vec3 \<Rightarrow> real" where
  "lengthSqD v =
     (case v of (vx, vy, vz) \<Rightarrow> d_add (d_add (d_mul vx vx) (d_mul vy vy)) (d_mul vz vz))"

definition length3D :: "vec3 \<Rightarrow> real" where
  "length3D v = d_sqrt (lengthSqD v)"

definition multiplyScalarD :: "vec3 \<Rightarrow> real \<Rightarrow> vec3" where
  "multiplyScalarD v s = (case v of (vx, vy, vz) \<Rightarrow> (d_mul vx s, d_mul vy s, d_mul vz s))"

definition normalizeD :: "vec3 \<Rightarrow> vec3" where
  "normalizeD v = multiplyScalarD v (d_div 1 (if length3D v = 0 then 1 else length3D v))"

definition targetSpeedD :: "FPSController \<Rightarrow> real" where
  "targetSpeedD c =
     d_mul (double (MOVE_SPEED c))
       (if pressed c ''ShiftLeft'' \<or> pressed c ''ShiftRight'' then double (SPRINT_MULT c)
        else 1.0)"

definition rawIntentD :: "FPSController \<Rightarrow> vec3" where
  "rawIntentD c =
     (let f = (- double (sin (double (yaw c))), 0, - double (cos (double (yaw c))));
          r = (double (cos (double (yaw c))), 0, - double (sin (double (yaw c))));
          m0 = (0, 0, 0);
          m1 = (if pressed c ''KeyW'' \<or> pressed c ''ArrowUp'' then addScaledVectorD m0 f 1 else m0);
          m2 = (if pressed c ''KeyS'' \<or> pressed c ''ArrowDown'' then addScaledVectorD m1 f (- 1) else m1);
          m3 = (if pressed c ''KeyA'' \<or> pressed c ''ArrowLeft'' then addScaledVectorD m2 r (- 1) else m2);
          m4 = (if pressed c ''KeyD'' \<or> pressed c ''ArrowRight'' then addScaledVectorD m3 r 1 else m3)
      in m4)"

definition moveIntentD :: "FPSController \<Rightarrow> vec3" where
  "moveIntentD c =
     (let speed = targetSpeedD c;
          m4 = rawIntentD c
      in if lengthSqD m4 > double 0.001 then multiplyScalarD (normalizeD m4) speed else m4)"

section \<open>Terrain mesh (buildMesh in src/utils/terrain.js)\<close>

text \<open>
  The methods of \<open>THREE.Vector3\<close> that \<open>buildMesh\<close> calls, on vectors of JavaScript numbers,
  as the three.js library defines them: \<open>normalize\<close> is \<open>divideScalar(length() || 1)\<close>, and
  \<open>divideScalar(s)\<close> is \<open>multiplyScalar(1 / s)\<close>. A length of 0 or NaN is falsy.
\<close>

type_synonym jvec3 = "jsnum \<times> jsnum \<times> jsnum"

fun js_sqrt :: "jsnum \<Rightarrow> jsnum" where
  "js_sqrt (Num a) = (if a < 0 then NaN else Num (sqrt a))"
| "js_sqrt PosInf = PosInf"
| "js_sqrt NegInf = NaN"
| "js_sqrt NaN = NaN"

definition fromArray :: "jsnum list \<Rightarrow> nat \<Rightarrow> jvec3" where
  "fromArray arr off = (tget arr off, tget arr (off + 1), tget arr (off + 2))"

definition subVectors :: "jvec3 \<Rightarrow> jvec3 \<Rightarrow> jvec3" where
  "subVectors a b =
     (case a of (ax, ay, az) \<Rightarrow> case b of (bx, by, bz) \<Rightarrow>
        (js_sub ax bx, js_sub ay by, js_sub az bz))"

definition crossVectors :: "jvec3 \<Rightarrow> jvec3 \<Rightarrow> jvec3" where
  "crossVectors a b =
     (case a of (ax, ay, az) \<Rightarrow> case b of (bx, by, bz) \<Rightarrow>
        (js_sub (js_mul ay bz) (js_mul az by),
         js_sub (js_mul az bx) (js_mul ax bz),
         js_sub (js_mul ax by) (js_mul ay bx)))"

definition jlength :: "jvec3 \<Rightarrow> jsnum" where
  "jlength v =
     (case v of (vx, vy, vz) \<Rightarrow> js_sqrt (js_add (js_add (js_mul vx vx) (js_mul vy vy)) (js_mul vz vz)))"

definition jmultiplyScalar :: "jvec3 \<Rightarrow> jsnum \<Rightarrow> jvec3" where
  "jmultiplyScalar v s = (case v of (vx, vy, vz) \<Rightarrow> (js_mul vx s, js_mul vy s, js_mul vz s))"

definition jnormalize :: "jvec3 \<Rightarrow> jvec3" where
  "jnormalize v =
     (let l = jlength v;
          d = (if l = Num 0 \<or> l = NaN then Num 1 else l)
      in jmultiplyScalar v (js_div (Num 1) d))"

text \<open>The elevation bands of the vertex colour, keyed on the raw sample \<open>t\<close>.\<close>

definition vertexColor :: "jsnum \<Rightarrow> jvec3" where
  "vertexColor t =
     (if js_lt t (Num 0.3) then
        (let s = js_div t (Num 0.3)
         in (js_add (Num 0.35) (js_mul s (Num 0.15)),
             js_add (Num 0.22) (js_mul s (Num 0.18)),
             Num 0.10))
      else if js_lt t (Num 0.65) then
        (let s = js_div (js_sub t (Num 0.3)) (Num 0.35)
         in (js_add (Num 0.18) (js_mul s (Num 0.10)),
             js_add (Num 0.38) (js_mul s (Num 0.12)),
             Num 0.10))
      else if js_lt t (Num 0.85) then
        (let s = js_div (js_sub t (Num 0.65)) (Num 0.2)
         in (js_add (Num 0.42) (js_mul s (Num 0.28)),
             js_add (Num 0.38) (js_mul s (Num 0.25)),
             js_add (Num 0.30) (js_mul s (Num 0.25))))
      else
        (let s = js_div (js_sub t (Num 0.85)) (Num 0.15)
         in (js_add (Num 0.70) (js_mul s (Num 0.30)),
             js_add (Num 0.70) (js_mul s (Num 0.30)),
             js_add (Num 0.75) (js_mul s (Num 0.25)))))"

text \<open>
  The vertex loops. The state is \<open>(positions, uvs, colors)\<close>; \<open>vertexStep\<close> is the loop body
  for one \<open>(row, col)\<close>, \<open>vertexCols\<close> the inner loop (run up to \<open>m\<close>) and \<open>vertexRows\<close> the
  outer loop.
\<close>

definition vertexStep ::
  "TerrainBuilder \<Rightarrow> nat \<Rightarrow> nat \<Rightarrow> nat \<Rightarrow> jsnum list \<times> jsnum list \<times> jsnum list
     \<Rightarrow> jsnum list \<times> jsnum list \<times> jsnum list" where
  "vertexStep t n row col st =
     (case st of (positions, uvs, colors) \<Rightarrow>
        (let i = row * n + col;
             x = vertexCoord t (int col);
             z = vertexCoord t (int row);
             y = getHeight t (Num (of_int (int row))) (Num (of_int (int col)));
             positions1 = positions[i * 3 + 0 := x];
             positions2 = positions1[i * 3 + 1 := y];
             positions3 = positions2[i * 3 + 2 := z];
             uvs1 = uvs[i * 2 + 0 := js_div (Num (real col)) (Num (of_int (sizeN t - 1)))];
             uvs2 = uvs1[i * 2 + 1 := js_div (Num (real row)) (Num (of_int (sizeN t - 1)))];
             rgb = vertexColor (tget (heights t) i);
             colors1 = colors[i * 3 + 0 := fst rgb];
             colors2 = colors1[i * 3 + 1 := fst (snd rgb)];
             colors3 = colors2[i * 3 + 2 := snd (snd rgb)]
         in (positions3, uvs2, colors3)))"

definition vertexCols ::
  "TerrainBuilder \<Rightarrow> nat \<Rightarrow> nat \<Rightarrow> nat \<Rightarrow> jsnum list \<times> jsnum list \<times> jsnum list
     \<Rightarrow> jsnum list \<times> jsnum list \<times> jsnum list" where
  "vertexCols t n row m st = fold (vertexStep t n row) [0..<m] st"

definition vertexRows ::
  "TerrainBuilder \<Rightarrow> nat \<Rightarrow> nat \<Rightarrow> jsnum list \<times> jsnum list \<times> jsnum list
     \<Rightarrow> jsnum list \<times> jsnum list \<times> jsnum list" where
  "vertexRows t n m st = fold (\<lambda>row st. vertexCols t n row n st) [0..<m] st"

text \<open>
  The index loops. The state is the index array and the write position \<open>idx\<close>; the loops run
  over the \<open>c = size - 1\<close> cells of each axis.
\<close>

definition cellStep :: "nat \<Rightarrow> nat \<Rightarrow> nat \<Rightarrow> nat list \<times> nat \<Rightarrow> nat list \<times> nat" where
  "cellStep n row col st =
     (case st of (indices, idx) \<Rightarrow>
        (let tl = row * n + col;
             tr = tl + 1;
             bl = (row + 1) * n + col;
             br = bl + 1;
             indices1 = indices[idx := tl];
             indices2 = indices1[idx + 1 := bl];
             indices3 = indices2[idx + 2 := tr];
             indices4 = indices3[idx + 3 := tr];
             indices5 = indices4[idx + 4 := bl];
             indices6 = indices5[idx + 5 := br]
         in (indices6, idx + 6)))"

definition cellCols :: "nat \<Rightarrow> nat \<Rightarrow> nat \<Rightarrow> nat list \<times> nat \<Rightarrow> nat list \<times> nat" where
  "cellCols n row m st = fold (cellStep n row) [0..<m] st"

definition cellRows :: "nat \<Rightarrow> nat \<Rightarrow> nat \<Rightarrow> nat list \<times> nat \<Rightarrow> nat list \<times> nat" where
  "cellRows n c m st = fold (\<lambda>row st. cellCols n row c st) [0..<m] st"

text \<open>
  The face-normal loop takes the indices three at a time (the index array always holds a
  multiple of three entries) and adds the normalised face normal to the three vertices of
  the triangle, one after the other.
\<close>

definition faceNormal :: "jsnum list \<Rightarrow> nat \<Rightarrow> nat \<Rightarrow> nat \<Rightarrow> jvec3" where
  "faceNormal positions a b c =
     (let v0 = fromArray positions (a * 3);
          v1 = fromArray positions (b * 3);
          v2 = fromArray positions (c * 3);
          edge1 = subVectors v1 v0;
          edge2 = subVectors v2 v0
      in jnormalize (crossVectors edge1 edge2))"

definition addNormal :: "jvec3 \<Rightarrow> nat \<Rightarrow> jsnum list \<Rightarrow> jsnum list" where
  "addNormal nrm vi normals =
     (let normals1 = normals[vi * 3 + 0 := js_add (tget normals (vi * 3 + 0)) (fst nrm)];
          normals2 = normals1[vi * 3 + 1 := js_add (tget normals1 (vi * 3 + 1)) (fst (snd nrm))];
          normals3 = normals2[vi * 3 + 2 := js_add (tget normals2 (vi * 3 + 2)) (snd (snd nrm))]
      in normals3)"

fun faceLoop :: "jsnum list \<Rightarrow> nat list \<Rightarrow> jsnum list \<Rightarrow> jsnum list" where
  "faceLoop positions (a # b # c # rest) normals =
     faceLoop positions rest (fold (addNormal (faceNormal positions a b c)) [a, b, c] normals)"
| "faceLoop positions rest normals = normals"

definition normalizeStep :: "nat \<Rightarrow> jsnum list \<Rightarrow> jsnum list" where
  "normalizeStep i normals =
     (let nrm = jnormalize (tget normals (i * 3), tget normals (i * 3 + 1), tget normals (i * 3 + 2));
          normals1 = normals[i * 3 := fst nrm];
          normals2 = normals1[i * 3 + 1 := fst (snd nrm)];
          normals3 = normals2[i * 3 + 2 := snd (snd nrm)]
      in normals3)"

definition normalizeLoop :: "nat \<Rightarrow> jsnum list \<Rightarrow> jsnum list" where
  "normalizeLoop m normals = fold normalizeStep [0..<m] normals"

record mesh =
  positions :: "jsnum list"
  normals :: "jsnum list"
  uvs :: "jsnum list"
  colors :: "jsnum list"
  indices :: "nat list"

definition buildMesh :: "TerrainBuilder \<Rightarrow> mesh" where
  "buildMesh t =
     (let n = nat (sizeN t);
          vertCount = nat (sizeN t * sizeN t);
          positions0 = replicate (vertCount * 3) (Num 0);
          normals0 = replicate (vertCount * 3) (Num 0);
          uvs0 = replicate (vertCount * 2) (Num 0);
          colors0 = replicate (vertCount * 3) (Num 0);
          verts = vertexRows t n n (positions0, uvs0, colors0);
          positions = fst verts;
          c = nat (sizeN t - 1);
          cellCount = nat ((sizeN t - 1) * (sizeN t - 1));
          indices = fst (cellRows n c c (replicate (cellCount * 6) 0, 0));
          zeroed = map (\<lambda>v. Num 0) normals0;
          summed = faceLoop positions indices zeroed;
          normals = normalizeLoop vertCount summed
      in \<lparr> positions = positions, normals = normals, uvs = fst (snd verts),
           colors = snd (snd verts), indices = indices \<rparr>)"

text \<open>A grid is flat when all of its samples are equal.\<close>

definition flat_grid :: "jsnum list \<Rightarrow> bool" where
  "flat_grid hs = list_all (\<lambda>h. h = hd hs) hs"

subsection \<open>Notions used to state the invariants of the mesh loops\<close>

text \<open>The value that the vertex loops write at index \<open>k\<close> of the position array.\<close>

definition posValue :: "TerrainBuilder \<Rightarrow> nat \<Rightarrow> nat \<Rightarrow> jsnum" where
  "posValue t n k =
     (let i = k div 3; row = i div n; col = i mod n
      in if k mod 3 = 0 then vertexCoord t (int col)
         else if k mod 3 = 1 then getHeight t (Num (of_int (int row))) (Num (of_int (int col)))
         else vertexCoord t (int row))"

text \<open>The cells in \<open>S\<close> of the position array hold the values the vertex loops write.\<close>

definition posWritten :: "TerrainBuilder \<Rightarrow> nat \<Rightarrow> nat set \<Rightarrow> jsnum list \<Rightarrow> bool" where
  "posWritten t n S ps = (\<forall>k < length ps. k div 3 \<in> S \<longrightarrow> ps ! k = posValue t n k)"

text \<open>The six indices of one cell, those of the first \<open>m\<close> cells of a row, and those of the
  first \<open>m\<close> rows of a grid with \<open>c\<close> cells per row.\<close>

definition cellIndices :: "nat \<Rightarrow> nat \<Rightarrow> nat \<Rightarrow> nat list" where
  "cellIndices n row col =
     [row * n + col, (row + 1) * n + col, row * n + col + 1,
      row * n + col + 1, (row + 1) * n + col, (row + 1) * n + col + 1]"

definition rowIndices :: "nat \<Rightarrow> nat \<Rightarrow> nat \<Rightarrow> nat list" where
  "rowIndices n row m = concat (map (cellIndices n row) [0..<m])"

definition gridIndices :: "nat \<Rightarrow> nat \<Rightarrow> nat \<Rightarrow> nat list" where
  "gridIndices n c m = concat (map (\<lambda>row. rowIndices n row c) [0..<m])"

text \<open>
  A face normal with finite components that points upward; with \<open>flat\<close> set, one that
  points straight up. \<open>accumulated\<close> is the invariant of the face-normal loop: every
  vertex holds a finite sum with non-negative height component, positive for the vertices
  in \<open>T\<close> that a triangle has touched. \<open>gridPositions\<close> states where the vertex loops put
  the vertices of a grid with cell size \<open>cs\<close> and heights \<open>Y\<close>.
\<close>

definition upward :: "bool \<Rightarrow> jvec3 \<Rightarrow> bool" where
  "upward flat v = (\<exists>a b c. v = (Num a, Num b, Num c) \<and> 0 < b \<and> (flat \<longrightarrow> a = 0 \<and> c = 0))"

definition accumulated :: "bool \<Rightarrow> nat \<Rightarrow> nat set \<Rightarrow> jsnum list \<Rightarrow> bool" where
  "accumulated flat V T ns =
     (length ns = V * 3 \<and>
      (\<forall>i<V. \<exists>a b c. ns ! (i * 3) = Num a \<and> ns ! (i * 3 + 1) = Num b \<and> ns ! (i * 3 + 2) = Num c
                 \<and> 0 \<le> b \<and> (i \<in> T \<longrightarrow> 0 < b) \<and> (flat \<longrightarrow> a = 0 \<and> c = 0)))"

definition gridPositions :: "real \<Rightarrow> real \<Rightarrow> nat \<Rightarrow> (nat \<Rightarrow> real) \<Rightarrow> jsnum list \<Rightarrow> bool" where
  "gridPositions cs half n Y ps =
     (\<forall>row<n. \<forall>col<n.
        fromArray ps ((row * n + col) * 3)
          = (Num (real col * cs - half), Num (Y (row * n + col)), Num (real row * cs - half)))"

text \<open>The four vertices of a cell.\<close>

definition cellVerts :: "nat \<Rightarrow> nat \<Rightarrow> nat \<Rightarrow> nat set" where
  "cellVerts n row col =
     {row * n + col, row * n + col + 1, (row + 1) * n + col, (row + 1) * n + col + 1}"

text \<open>
  The invariant of the final loop: the vertices below \<open>m\<close> hold a unit normal, which is
  \<open>(0, 1, 0)\<close> with \<open>flat\<close> set; the others still hold their sum.
\<close>

definition normalizedUpTo :: "bool \<Rightarrow> nat \<Rightarrow> nat \<Rightarrow> jsnum list \<Rightarrow> bool" where
  "normalizedUpTo flat V m ns =
     (length ns = V * 3 \<and>
      (\<forall>i<V. \<exists>a b c. ns ! (i * 3) = Num a \<and> ns ! (i * 3 + 1) = Num b \<and> ns ! (i * 3 + 2) = Num c
                 \<and> (if i < m then a * a + b * b + c * c = 1 \<and> (flat \<longrightarrow> a = 0 \<and> b = 1 \<and> c = 0)
                     else 0 < b \<and> (flat \<longrightarrow> a = 0 \<and> c = 0))))"

text \<open>The real value of a finite number, and the world height of the vertex \<open>i\<close>.\<close>

fun the_num :: "jsnum \<Rightarrow> real" where
  "the_num (Num r) = r"
| "the_num x = 0"

definition vertexHeight :: "TerrainBuilder \<Rightarrow> nat \<Rightarrow> nat \<Rightarrow> real" where
  "vertexHeight t n i =
     the_num (getHeight t (Num (of_int (int (i div n)))) (Num (of_int (int (i mod n)))))"

section \<open>Rounding: evaluation lemmas\<close>

text \<open>
  A number strictly between two neighbouring half-way points of the format rounds to the
  multiple of the unit between them. The lemmas below evaluate the roundings that the
  concrete runs in the later sections need.
\<close>

lemma roundEven_nearest:
  assumes "of_int m - 1 / 2 < r" "r < of_int m + 1 / 2"
  shows "roundEven r = m"
proof -
  have "\<lfloor>r\<rfloor> = m \<or> \<lfloor>r\<rfloor> = m - 1" using assms by linarith
  then show ?thesis
  proof
    assume f: "\<lfloor>r\<rfloor> = m"
    then have "r - of_int \<lfloor>r\<rfloor> < 1 / 2" using assms(2) by simp
    then show ?thesis by (simp add: roundEven_def Let_def f)
  next
    assume f: "\<lfloor>r\<rfloor> = m - 1"
    then have "1 / 2 < r - of_int \<lfloor>r\<rfloor>" using assms(1) by simp
    then show ?thesis by (simp add: roundEven_def Let_def f)
  qed
qed

lemma roundTo_at:
  assumes "2 powr of_int e \<le> \<bar>x\<bar>" "\<bar>x\<bar> < 2 powr of_int (e + 1)"
    and "u = 2 powr of_int (e - int p + 1)"
  shows "roundTo p x = of_int (roundEven (x / u)) * u"
proof -
  have "0 < \<bar>x\<bar>" using assms(1) by (smt (verit) powr_gt_zero)
  then have nz: "x \<noteq> 0" by simp
  have "\<lfloor>log 2 \<bar>x\<bar>\<rfloor> = e"
    using floor_log_eq_powr_iff[of "\<bar>x\<bar>" 2 e] \<open>0 < \<bar>x\<bar>\<close> assms(1,2) by simp
  then show ?thesis by (simp add: roundTo_def nz Let_def assms(3))
qed

lemma roundTo_nearest:
  assumes "2 powr of_int e \<le> \<bar>x\<bar>" "\<bar>x\<bar> < 2 powr of_int (e + 1)"
    and "u = 2 powr of_int (e - int p + 1)"
    and "(of_int m - 1 / 2) * u < x" "x < (of_int m + 1 / 2) * u"
  shows "roundTo p x = of_int m * u"
proof -
  have upos: "0 < u" by (simp add: assms(3))
  have "of_int m - 1 / 2 < x / u" "x / u < of_int m + 1 / 2"
    using assms(4,5) upos by (simp_all add: field_simps)
  then have "roundEven (x / u) = m" by (rule roundEven_nearest)
  then show ?thesis using roundTo_at[OF assms(1,2,3)] by simp
qed

lemma double_0: "double 0 = 0" by (simp add: double_def roundTo_def)

lemma double_1: "double 1 = 1"
  using roundTo_nearest[of 0 1 "1 / 2 ^ 52" 53 "2 ^ 52"]
  by (simp add: double_def powr_minus_divide)

lemma double_m1: "double (- 1) = - 1"
  using roundTo_nearest[of 0 "- 1" "1 / 2 ^ 52" 53 "- (2 ^ 52)"]
  by (simp add: double_def powr_minus_divide)

lemma double_2: "double 2 = 2"
  using roundTo_nearest[of 1 2 "1 / 2 ^ 51" 53 "2 ^ 52"]
  by (simp add: double_def powr_minus_divide)

lemma double_8: "double 8 = 8"
  using roundTo_nearest[of 3 8 "1 / 2 ^ 49" 53 "2 ^ 52"]
  by (simp add: double_def powr_minus_divide)

lemma double_milli: "double 0.001 = 4611686018427388 / 2 ^ 62"
  using roundTo_nearest[of "- 10" "0.001" "1 / 2 ^ 62" 53 4611686018427388]
  by (simp add: double_def powr_minus_divide)

text \<open>\<open>Math.sqrt(2)\<close> is \<open>0x1.6a09e667f3bcdp+0\<close>.\<close>

lemma double_sqrt2: "double (sqrt 2) = 6369051672525773 / 2 ^ 52"
proof -
  have lo: "(6369051672525773 - 1 / 2) * (1 / 2 ^ 52) < sqrt (2::real)"
    by (rule real_less_rsqrt) (simp add: power2_eq_square)
  have hi: "sqrt (2::real) < (6369051672525773 + 1 / 2) * (1 / 2 ^ 52)"
    by (rule real_less_lsqrt) (simp_all add: power2_eq_square)
  have b1: "1 \<le> sqrt (2::real)" by simp
  have b2: "sqrt (2::real) < 2" by (rule real_less_lsqrt) simp_all
  show ?thesis
    using roundTo_nearest[of 0 "sqrt 2" "1 / 2 ^ 52" 53 6369051672525773] lo hi b1 b2
    by (simp add: double_def powr_minus_divide)
qed

text \<open>The rounded reciprocal of \<open>Math.sqrt(2)\<close> is \<open>0x1.6a09e667f3bccp-1\<close>.\<close>

lemma double_inv: "double (1 / (6369051672525773 / 2 ^ 52)) = 6369051672525772 / 2 ^ 53"
  using roundTo_nearest[of "- 1" "1 / (6369051672525773 / 2 ^ 52)" "1 / 2 ^ 53" 53 6369051672525772]
  by (simp add: double_def powr_minus_divide)

lemma double_inv_exact: "double (6369051672525772 / 2 ^ 53) = 6369051672525772 / 2 ^ 53"
  using roundTo_nearest[of "- 1" "6369051672525772 / 2 ^ 53" "1 / 2 ^ 53" 53 6369051672525772]
  by (simp add: double_def powr_minus_divide)

lemma double_minv_exact: "double (- (6369051672525772 / 2 ^ 53)) = - (6369051672525772 / 2 ^ 53)"
  using roundTo_nearest[of "- 1" "- (6369051672525772 / 2 ^ 53)" "1 / 2 ^ 53" 53 "- 6369051672525772"]
  by (simp add: double_def powr_minus_divide)

lemma double_scaled: "double (6369051672525772 / 2 ^ 53 * 8) = 6369051672525772 / 2 ^ 50"
  using roundTo_nearest[of 2 "6369051672525772 / 2 ^ 53 * 8" "1 / 2 ^ 50" 53 6369051672525772]
  by (simp add: double_def powr_minus_divide)

lemma double_mscaled: "double (- (6369051672525772 / 2 ^ 53) * 8) = - (6369051672525772 / 2 ^ 50)"
  using roundTo_nearest[of 2 "- (6369051672525772 / 2 ^ 53) * 8" "1 / 2 ^ 50" 53 "- 6369051672525772"]
  by (simp add: double_def powr_minus_divide)

lemma double_square:
  "double (6369051672525772 / 2 ^ 50 * (6369051672525772 / 2 ^ 50)) = 9007199254740990 / 2 ^ 48"
  using roundTo_nearest[of 4 "6369051672525772 / 2 ^ 50 * (6369051672525772 / 2 ^ 50)"
          "1 / 2 ^ 48" 53 9007199254740990]
  by (simp add: double_def powr_minus_divide)

lemma double_square_exact: "double (9007199254740990 / 2 ^ 48) = 9007199254740990 / 2 ^ 48"
  using roundTo_nearest[of 4 "9007199254740990 / 2 ^ 48" "1 / 2 ^ 48" 53 9007199254740990]
  by (simp add: double_def powr_minus_divide)

lemma double_sum: "double (9007199254740990 / 2 ^ 48 + 9007199254740990 / 2 ^ 48) = 9007199254740990 / 2 ^ 47"
  using roundTo_nearest[of 5 "9007199254740990 / 2 ^ 48 + 9007199254740990 / 2 ^ 48"
          "1 / 2 ^ 47" 53 9007199254740990]
  by (simp add: double_def powr_minus_divide)

lemma double_sqrt_sum: "double (sqrt (9007199254740990 / 2 ^ 47)) = 9007199254740991 / 2 ^ 50"
proof -
  let ?x = "9007199254740990 / 2 ^ 47 :: real"
  have lo: "(9007199254740991 - 1 / 2) * (1 / 2 ^ 50) < sqrt ?x"
    by (rule real_less_rsqrt) (simp add: power2_eq_square)
  have hi: "sqrt ?x < (9007199254740991 + 1 / 2) * (1 / 2 ^ 50)"
    by (rule real_less_lsqrt) (simp_all add: power2_eq_square)
  have b1: "4 \<le> sqrt ?x" by (rule real_le_rsqrt) (simp add: power2_eq_square)
  have b2: "sqrt ?x < 8" by (rule real_less_lsqrt) simp_all
  show ?thesis
    using roundTo_nearest[of 2 "sqrt ?x" "1 / 2 ^ 50" 53 9007199254740991] lo hi b1 b2
    by (simp add: double_def powr_minus_divide)
qed

subsection \<open>The error of a rounding\<close>

text \<open>
  Rounding to \<open>p\<close> bits changes a number by at most the fraction \<open>1 / 2 ^ p\<close> of its magnitude.
  The relation \<open>closeTo\<close> is compatible with the operations of the movement vector.
\<close>

lemma roundEven_err: "\<bar>of_int (roundEven r) - r\<bar> \<le> 1 / 2"
proof -
  have "of_int \<lfloor>r\<rfloor> \<le> r" "r < of_int \<lfloor>r\<rfloor> + 1" by linarith+
  then show ?thesis by (auto simp: roundEven_def Let_def)
qed

lemma roundTo_err: "\<bar>roundTo p x - x\<bar> \<le> \<bar>x\<bar> / 2 ^ p"
proof (cases "x = 0")
  case True
  then show ?thesis by (simp add: roundTo_def)
next
  case False
  define e where "e = \<lfloor>log 2 \<bar>x\<bar>\<rfloor>"
  define u :: real where "u = 2 powr of_int (e - int p + 1)"
  have upos: "0 < u" by (simp add: u_def)
  have lo: "2 powr of_int e \<le> \<bar>x\<bar>"
    using floor_log_eq_powr_iff[of "\<bar>x\<bar>" 2 e] False by (simp add: e_def)
  have r: "roundTo p x = of_int (roundEven (x / u)) * u"
    by (simp add: roundTo_def False Let_def e_def u_def)
  have "roundTo p x - x = (of_int (roundEven (x / u)) - x / u) * u"
    using upos by (simp add: r left_diff_distrib)
  then have "\<bar>roundTo p x - x\<bar> = \<bar>of_int (roundEven (x / u)) - x / u\<bar> * u"
    using upos by (simp add: abs_mult)
  also have "\<dots> \<le> 1 / 2 * u"
    using roundEven_err[of "x / u"] upos by (intro mult_right_mono) simp_all
  also have "1 / 2 * u = 2 powr of_int e / 2 ^ p"
  proof -
    have "of_int (e - int p + 1) = of_int e + (- real p) + (1::real)" by simp
    then have "u = 2 powr (of_int e + (- real p) + 1)"
      unfolding u_def by (simp only:)
    also have "\<dots> = 2 powr of_int e * 2 powr (- real p) * 2 powr 1"
      by (simp only: powr_add)
    finally have ueq: "u = 2 powr of_int e * 2 powr (- real p) * 2" by simp
    have pp: "2 powr (- real p) = 1 / (2::real) ^ p"
      by (simp add: powr_minus_divide powr_realpow)
    show ?thesis unfolding ueq pp by simp
  qed
  also have "\<dots> \<le> \<bar>x\<bar> / 2 ^ p" using lo by (simp add: divide_right_mono)
  finally show ?thesis .
qed

lemma double_err: "\<bar>double x - x\<bar> \<le> \<bar>x\<bar> / 2 ^ 53"
  unfolding double_def by (rule roundTo_err)

lemma double_nonneg:
  assumes "0 \<le> x"
  shows "0 \<le> double x"
proof -
  have "x / 2 ^ 53 \<le> x" using assms by (simp add: field_simps)
  then show ?thesis using double_err[of x] assms by linarith
qed

lemma double_abs_bounds:
  "\<bar>x\<bar> * (1 - 1 / 2 ^ 53) \<le> \<bar>double x\<bar>" "\<bar>double x\<bar> \<le> \<bar>x\<bar> * (1 + 1 / 2 ^ 53)"
  using double_err[of x] by (simp_all add: algebra_simps abs_le_iff abs_if split: if_splits)

lemma closeTo_refl: "closeTo 0 a a"
  by (simp add: closeTo_def)

lemma tau_pow: "0 < (1 - 1 / 2 ^ 53 :: real) ^ k" "(1 - 1 / 2 ^ 53 :: real) ^ k \<le> 1"
  by (simp_all add: power_le_one)

lemma closeTo_mono:
  assumes "closeTo k a b" "k \<le> j" "0 \<le> a" "0 \<le> b"
  shows "closeTo j a b"
proof -
  have le: "(1 - 1 / 2 ^ 53 :: real) ^ j \<le> (1 - 1 / 2 ^ 53) ^ k"
    using assms(2) by (intro power_decreasing) simp_all
  have "a * (1 - 1 / 2 ^ 53) ^ j \<le> a * (1 - 1 / 2 ^ 53) ^ k"
    using le assms(3) by (rule mult_left_mono)
  moreover have "b * (1 - 1 / 2 ^ 53) ^ j \<le> b * (1 - 1 / 2 ^ 53) ^ k"
    using le assms(4) by (rule mult_left_mono)
  ultimately show ?thesis using assms(1) by (simp add: closeTo_def)
qed

lemma closeTo_add:
  assumes "closeTo k a b" "closeTo k c d"
  shows "closeTo k (a + c) (b + d)"
  using assms by (simp add: closeTo_def distrib_right)

lemma closeTo_mult:
  assumes "closeTo k a b" "closeTo j c d" "0 \<le> a" "0 \<le> b" "0 \<le> c" "0 \<le> d"
  shows "closeTo (k + j) (a * c) (b * d)"
proof -
  let ?t = "1 - 1 / 2 ^ 53 :: real"
  have 1: "(a * ?t ^ k) * (c * ?t ^ j) \<le> b * d"
    using assms tau_pow(1)[of k] tau_pow(1)[of j]
    by (intro mult_mono) (simp_all add: closeTo_def)
  have 2: "(b * ?t ^ k) * (d * ?t ^ j) \<le> a * c"
    using assms tau_pow(1)[of k] tau_pow(1)[of j]
    by (intro mult_mono) (simp_all add: closeTo_def)
  show ?thesis using 1 2 by (simp add: closeTo_def power_add mult_ac)
qed

lemma closeTo_double:
  assumes "closeTo k a \<bar>b\<bar>" "0 \<le> a"
  shows "closeTo (Suc k) a \<bar>double b\<bar>"
proof -
  let ?t = "1 - 1 / 2 ^ 53 :: real"
  have tk: "0 < ?t ^ k" by (rule tau_pow)
  have t: "0 < ?t" by simp
  have "a * ?t ^ Suc k = (a * ?t ^ k) * ?t" by simp
  also have "\<dots> \<le> \<bar>b\<bar> * ?t" using assms(1) t by (intro mult_right_mono) (simp_all add: closeTo_def)
  also have "\<dots> \<le> \<bar>double b\<bar>" by (rule double_abs_bounds)
  finally have 1: "a * ?t ^ Suc k \<le> \<bar>double b\<bar>" .
  have "\<bar>double b\<bar> * ?t \<le> \<bar>b\<bar> * (1 + 1 / 2 ^ 53) * ?t"
    using double_abs_bounds(2)[of b] t by (intro mult_right_mono) simp_all
  also have "\<dots> = \<bar>b\<bar> * ((1 + 1 / 2 ^ 53) * ?t)" by simp
  also have "\<dots> \<le> \<bar>b\<bar> * 1" by (intro mult_left_mono) simp_all
  finally have le: "\<bar>double b\<bar> * ?t \<le> \<bar>b\<bar>" by simp
  have "\<bar>double b\<bar> * ?t ^ Suc k = (\<bar>double b\<bar> * ?t) * ?t ^ k" by simp
  also have "\<dots> \<le> \<bar>b\<bar> * ?t ^ k" using le tk by (intro mult_right_mono) simp_all
  also have "\<dots> \<le> a" using assms(1) by (simp add: closeTo_def)
  finally have 2: "\<bar>double b\<bar> * ?t ^ Suc k \<le> a" .
  show ?thesis using 1 2 unfolding closeTo_def by blast
qed

lemma closeTo_double_nonneg:
  assumes "closeTo k a b" "0 \<le> a" "0 \<le> b"
  shows "closeTo (Suc k) a (double b)"
  using closeTo_double[of k a b] assms double_nonneg[of b] by simp

lemma sqrt_power_even:
  fixes t :: real
  assumes "0 \<le> t"
  shows "sqrt (t ^ (2 * k)) = t ^ k"
proof -
  have "t ^ (2 * k) = (t ^ k)\<^sup>2" by (simp add: power_mult[symmetric] mult.commute)
  then show ?thesis using assms by simp
qed

lemma closeTo_sqrt:
  assumes "closeTo (2 * k) a b" "0 \<le> a" "0 \<le> b"
  shows "closeTo k (sqrt a) (sqrt b)"
proof -
  let ?t = "1 - 1 / 2 ^ 53 :: real"
  have tk: "0 \<le> ?t ^ k" by simp
  have sq: "sqrt (?t ^ (2 * k)) = ?t ^ k"
    by (rule sqrt_power_even) simp
  have "sqrt (a * ?t ^ (2 * k)) \<le> sqrt b" using assms(1) by (simp add: closeTo_def)
  then have 1: "sqrt a * ?t ^ k \<le> sqrt b" by (simp only: real_sqrt_mult sq)
  have "sqrt (b * ?t ^ (2 * k)) \<le> sqrt a" using assms(1) by (simp add: closeTo_def)
  then have 2: "sqrt b * ?t ^ k \<le> sqrt a" by (simp only: real_sqrt_mult sq)
  show ?thesis using 1 2 unfolding closeTo_def by blast
qed

lemma closeTo_inverse:
  assumes "closeTo k a b" "0 < a" "0 < b"
  shows "closeTo k (1 / a) (1 / b)"
  using assms by (simp add: closeTo_def field_simps)

lemma closeTo_pos:
  assumes "closeTo k a b" "0 < b"
  shows "0 < a"
proof -
  have "0 < b * (1 - 1 / 2 ^ 53) ^ k" using assms(2) tau_pow(1)[of k] by (intro mult_pos_pos)
  then show ?thesis using assms(1) by (simp add: closeTo_def)
qed

lemma closeTo_pos':
  assumes "closeTo k a b" "0 < a"
  shows "0 < b"
proof -
  have "0 < a * (1 - 1 / 2 ^ 53) ^ k" using assms(2) tau_pow(1)[of k] by (intro mult_pos_pos)
  then show ?thesis using assms(1) by (simp add: closeTo_def)
qed
section \<open>Properties of the terrain model\<close>

subsection \<open>Index arithmetic of the row-major grid\<close>

lemma idx_inj:
  fixes n :: nat
  assumes "r < n" "r' < n" "c * n + r = c' * n + r'"
  shows "c = c' \<and> r = r'"
proof -
  have "(c * n + r) div n = c" "(c * n + r) mod n = r" using assms(1) by auto
  moreover have "(c' * n + r') div n = c'" "(c' * n + r') mod n = r'" using assms(2) by auto
  ultimately show ?thesis using assms(3) by metis
qed

lemma idx_bound:
  fixes n :: nat
  assumes "r < n" "c < n"
  shows "c * n + r < n * n"
proof -
  have "c * n + r < c * n + n" using assms by simp
  also have "\<dots> = (c + 1) * n" by simp
  also have "\<dots> \<le> n * n" using assms(2) by (simp add: mult_le_mono1 del: mult_Suc)
  finally show ?thesis .
qed

lemma grid_index_in_range:
  fixes n r c :: int
  assumes "0 \<le> r" "r < n" "0 \<le> c" "c < n" "length hs = nat (n * n)"
  shows "0 \<le> r * n + c \<and> nat (r * n + c) < length hs"
proof -
  have "nat c < nat n" "nat r < nat n" using assms by auto
  from idx_bound[OF this] have "nat r * nat n + nat c < nat n * nat n" .
  moreover have "nat (r * n + c) = nat r * nat n + nat c"
    using assms by (simp add: nat_add_distrib nat_mult_distrib)
  moreover have "nat (n * n) = nat n * nat n" using assms by (simp add: nat_mult_distrib)
  ultimately show ?thesis using assms by simp
qed

subsection \<open>The collision heightfield exporter\<close>

lemma transposeCols_length [simp]: "length (transposeCols hs n row m arr) = length arr"
  by (induction m) (simp_all add: transposeCols_def)

text \<open>After the inner loop has run for \<open>m\<close> columns, exactly the cells \<open>col * n + row\<close> with
  \<open>col < m\<close> have been overwritten.\<close>

lemma transposeCols_nth:
  assumes "row < n" "m \<le> n" "length arr = n * n"
  shows "transposeCols hs n row m arr ! k =
           (if \<exists>col < m. k = col * n + row then tget hs (row * n + (k div n)) else arr ! k)"
  using assms(2)
proof (induction m)
  case 0
  then show ?case by (simp add: transposeCols_def)
next
  case (Suc m)
  have step: "transposeCols hs n row (Suc m) arr =
     (transposeCols hs n row m arr)[m * n + row := tget hs (row * n + m)]"
    by (simp add: transposeCols_def)
  have mlt: "m < n" using Suc.prems by simp
  have inr: "m * n + row < length (transposeCols hs n row m arr)"
    using idx_bound[OF assms(1) mlt] assms(3) by simp
  show ?case
  proof (cases "k = m * n + row")
    case True
    have "k div n = m" using True assms(1) by simp
    then show ?thesis using True inr step by auto
  next
    case False
    have "(\<exists>col<Suc m. k = col * n + row) = (\<exists>col<m. k = col * n + row)"
      using False less_Suc_eq by auto
    then show ?thesis using False step Suc.IH mlt by simp
  qed
qed

lemma transposeRows_length [simp]: "length (transposeRows hs n m arr) = length arr"
  by (induction m) (simp_all add: transposeRows_def)

lemma transposeRows_nth:
  assumes "m \<le> n" "length arr = n * n" "row < m" "col < n"
  shows "transposeRows hs n m arr ! (col * n + row) = tget hs (row * n + col)"
  using assms(1,3)
proof (induction m)
  case 0
  then show ?case by simp
next
  case (Suc m)
  have step: "transposeRows hs n (Suc m) arr = transposeCols hs n m n (transposeRows hs n m arr)"
    by (simp add: transposeRows_def)
  have mlt: "m < n" using Suc.prems by simp
  have len: "length (transposeRows hs n m arr) = n * n" using assms(2) by simp
  have rn: "row < n" using Suc.prems by simp
  show ?case
  proof (cases "row = m")
    case True
    have "\<exists>c<n. col * n + row = c * n + m" using True assms(4) by blast
    moreover have "(col * n + row) div n = col" using rn by simp
    ultimately show ?thesis
      using transposeCols_nth[OF mlt le_refl len, of hs "col * n + row"] step True by simp
  next
    case False
    then have rm: "row < m" using Suc.prems by simp
    have ne: "\<not> (\<exists>c<n. col * n + row = c * n + m)"
      using idx_inj[OF rn mlt] False by blast
    have "transposeCols hs n m n (transposeRows hs n m arr) ! (col * n + row)
            = transposeRows hs n m arr ! (col * n + row)"
      unfolding transposeCols_nth[OF mlt le_refl len, of hs "col * n + row"] using ne
      by (simp only: if_False)
    then show ?thesis
      using step Suc.IH rm mlt by simp
  qed
qed

text \<open>
  Claim C1. For a terrain whose grid has size \<open>N \<ge> 2\<close> and holds \<open>N * N\<close> row-major samples,
  \<open>buildRapierHeightfield\<close> returns \<open>nrows = ncols = N - 1\<close>, the scale
  \<open>(worldSize, heightScale, worldSize)\<close>, and an array of length \<open>(nrows + 1) * (ncols + 1)\<close>
  that is the transpose of the input: the entry at \<open>col * N + row\<close> is the input's entry
  at \<open>row * N + col\<close>, for all \<open>row\<close> and \<open>col\<close> below \<open>N\<close>.
\<close>

theorem buildRapierHeightfield_transposes:
  assumes "2 \<le> sizeN t" and "length (heights t) = nat (sizeN t * sizeN t)"
  shows "nrows (buildRapierHeightfield t) = sizeN t - 1
       \<and> ncols (buildRapierHeightfield t) = sizeN t - 1
       \<and> scale (buildRapierHeightfield t) = (worldSize t, heightScale t, worldSize t)
       \<and> length (hf_heights (buildRapierHeightfield t))
           = nat ((nrows (buildRapierHeightfield t) + 1) * (ncols (buildRapierHeightfield t) + 1))
       \<and> (\<forall>row col. row < nat (sizeN t) \<and> col < nat (sizeN t) \<longrightarrow>
            hf_heights (buildRapierHeightfield t) ! (col * nat (sizeN t) + row)
              = heights t ! (row * nat (sizeN t) + col))"
proof -
  define n where "n = nat (sizeN t)"
  have nn: "nat (sizeN t * sizeN t) = n * n"
    using assms(1) by (simp add: n_def nat_mult_distrib)
  have hf: "hf_heights (buildRapierHeightfield t)
              = transposeRows (heights t) n n (replicate (n * n) (Num 0))"
    by (simp add: buildRapierHeightfield_def Let_def n_def[symmetric] nn)
  have cell: "hf_heights (buildRapierHeightfield t) ! (col * n + row) = heights t ! (row * n + col)"
    if "row < n" "col < n" for row col
  proof -
    have "row * n + col < length (heights t)"
      using idx_bound[OF that(2) that(1)] assms(2) nn by simp
    then have "tget (heights t) (row * n + col) = heights t ! (row * n + col)"
      by (simp add: tget_def)
    then show ?thesis
      using transposeRows_nth[OF le_refl _ that, of "replicate (n * n) (Num 0)" "heights t"] hf
      by simp
  qed
  have "length (hf_heights (buildRapierHeightfield t)) = n * n" by (simp add: hf)
  then show ?thesis
    using cell nn by (simp add: buildRapierHeightfield_def Let_def n_def[symmetric])
qed

theorem buildRapierHeightfield_transposes_witness:
  "2 \<le> sizeN \<lparr> heights = [Num 1, Num 2, Num 3, Num 4], sizeN = 2, cols = 1, worldSize = 200,
        heightScale = 14, heightOffset = 0, cellSize = Num 200 \<rparr>
   \<and> length (heights \<lparr> heights = [Num 1, Num 2, Num 3, Num 4], sizeN = 2, cols = 1,
        worldSize = 200, heightScale = 14, heightOffset = 0, cellSize = Num 200 \<rparr>) = nat (2 * 2)
   \<and> nrows (buildRapierHeightfield \<lparr> heights = [Num 1, Num 2, Num 3, Num 4], sizeN = 2,
        cols = 1, worldSize = 200, heightScale = 14, heightOffset = 0, cellSize = Num 200 \<rparr>) = 1
   \<and> hf_heights (buildRapierHeightfield \<lparr> heights = [Num 1, Num 2, Num 3, Num 4], sizeN = 2,
        cols = 1, worldSize = 200, heightScale = 14, heightOffset = 0, cellSize = Num 200 \<rparr>) ! 2
      = Num 2"
proof -
  let ?t = "\<lparr> heights = [Num 1, Num 2, Num 3, Num 4], sizeN = 2, cols = 1, worldSize = 200,
        heightScale = 14, heightOffset = 0, cellSize = Num 200 \<rparr>"
  have h1: "2 \<le> sizeN ?t" by simp
  have h2: "length (heights ?t) = nat (sizeN ?t * sizeN ?t)" by simp
  note main = buildRapierHeightfield_transposes[OF h1 h2]
  note cells = main[THEN conjunct2, THEN conjunct2, THEN conjunct2, THEN conjunct2,
                    rule_format, of 0 1]
  have "hf_heights (buildRapierHeightfield ?t) ! (1 * nat (sizeN ?t) + 0)
          = heights ?t ! (0 * nat (sizeN ?t) + 1)"
    using cells by simp
  then show ?thesis using main h1 by simp
qed

subsection \<open>Clamped grid lookup\<close>

lemma js_clamp_int:
  assumes "1 \<le> n"
  shows "js_max (Num 0) (js_min (Num (of_int (n - 1))) (Num (of_int i)))
           = Num (of_int (clampIndex n i))"
  using assms by (auto simp: js_max_def js_min_def clampIndex_def)

lemma clampIndex_range: "1 \<le> n \<Longrightarrow> 0 \<le> clampIndex n i \<and> clampIndex n i < n"
  by (auto simp: clampIndex_def)

lemma clampIndex_idem: "1 \<le> n \<Longrightarrow> clampIndex n (clampIndex n i) = clampIndex n i"
  by (auto simp: clampIndex_def)

lemma js_get_int:
  assumes "0 \<le> k" "nat k < length xs"
  shows "js_get xs (Num (of_int k)) = xs ! nat k"
  using assms by (simp add: js_get_def tget_def)

lemma getHeight_int:
  assumes "1 \<le> sizeN t" and "length (heights t) = nat (sizeN t * sizeN t)"
  shows "getHeight t (Num (of_int row)) (Num (of_int col)) =
           js_add (js_mul (heights t ! nat (clampIndex (sizeN t) row * sizeN t
                                             + clampIndex (sizeN t) col))
                          (Num (heightScale t)))
                  (Num (heightOffset t))"
proof -
  let ?n = "sizeN t"
  let ?r = "clampIndex ?n row" and ?c = "clampIndex ?n col"
  have r: "0 \<le> ?r" "?r < ?n" and c: "0 \<le> ?c" "?c < ?n"
    using clampIndex_range[OF assms(1)] by auto
  have inr: "nat (?r * ?n + ?c) < length (heights t)" and nonneg: "0 \<le> ?r * ?n + ?c"
    using grid_index_in_range[OF r c assms(2)] by auto
  have idx: "js_add (js_mul (Num (of_int ?r)) (Num (of_int ?n))) (Num (of_int ?c))
          = Num (of_int (?r * ?n + ?c))" by simp
  show ?thesis
    unfolding getHeight_def Let_def js_clamp_int[OF assms(1)] idx js_get_int[OF nonneg inr] ..
qed

text \<open>
  Claim C2. For a terrain with grid size \<open>N \<ge> 2\<close> (holding \<open>N * N\<close> samples) and any integers
  \<open>row\<close> and \<open>col\<close>, also outside \<open>[0, N - 1]\<close>, \<open>getHeight\<close> returns the sample at the
  clamped indices times \<open>heightScale\<close> plus \<open>heightOffset\<close>; this equals \<open>getHeight\<close> at the
  clamped indices; and the clamped indices address a cell inside the array, so no read
  falls outside it. (\<open>getHeight\<close> has no failing branch: it is a total function.)
\<close>

theorem getHeight_clamps:
  assumes "2 \<le> sizeN t" and "length (heights t) = nat (sizeN t * sizeN t)"
  shows "getHeight t (Num (of_int row)) (Num (of_int col)) =
           js_add (js_mul (heights t ! nat (clampIndex (sizeN t) row * sizeN t
                                             + clampIndex (sizeN t) col))
                          (Num (heightScale t)))
                  (Num (heightOffset t))
       \<and> getHeight t (Num (of_int row)) (Num (of_int col)) =
           getHeight t (Num (of_int (clampIndex (sizeN t) row)))
                       (Num (of_int (clampIndex (sizeN t) col)))
       \<and> 0 \<le> clampIndex (sizeN t) row \<and> clampIndex (sizeN t) row \<le> sizeN t - 1
       \<and> 0 \<le> clampIndex (sizeN t) col \<and> clampIndex (sizeN t) col \<le> sizeN t - 1
       \<and> nat (clampIndex (sizeN t) row * sizeN t + clampIndex (sizeN t) col)
           < length (heights t)"
proof -
  have one: "1 \<le> sizeN t" using assms(1) by simp
  let ?n = "sizeN t"
  let ?r = "clampIndex ?n row" and ?c = "clampIndex ?n col"
  have r: "0 \<le> ?r" "?r < ?n" and c: "0 \<le> ?c" "?c < ?n"
    using clampIndex_range[OF one] by auto
  have inr: "nat (?r * ?n + ?c) < length (heights t)"
    using grid_index_in_range[OF r c assms(2)] by auto
  show ?thesis
    using getHeight_int[OF one assms(2), of row col]
          getHeight_int[OF one assms(2), of ?r ?c] r c inr
    by (simp add: clampIndex_idem[OF one])
qed

theorem getHeight_clamps_witness:
  "2 \<le> sizeN \<lparr> heights = [Num 0, Num (1/2), Num 1, Num (1/4)], sizeN = 2, cols = 1,
        worldSize = 4, heightScale = 10, heightOffset = 3, cellSize = Num 4 \<rparr>
   \<and> length (heights \<lparr> heights = [Num 0, Num (1/2), Num 1, Num (1/4)], sizeN = 2, cols = 1,
        worldSize = 4, heightScale = 10, heightOffset = 3, cellSize = Num 4 \<rparr>) = nat (2 * 2)
   \<and> getHeight \<lparr> heights = [Num 0, Num (1/2), Num 1, Num (1/4)], sizeN = 2, cols = 1,
        worldSize = 4, heightScale = 10, heightOffset = 3, cellSize = Num 4 \<rparr>
        (Num (of_int (- 3))) (Num (of_int 7)) = Num 8"
proof -
  let ?t = "\<lparr> heights = [Num 0, Num (1/2), Num 1, Num (1/4)], sizeN = 2, cols = 1,
        worldSize = 4, heightScale = 10, heightOffset = 3, cellSize = Num 4 \<rparr>"
  have h1: "2 \<le> sizeN ?t" by simp
  have h2: "length (heights ?t) = nat (sizeN ?t * sizeN ?t)" by simp
  show ?thesis
    using getHeight_clamps[OF h1 h2, of "- 3" 7] by (simp add: clampIndex_def)
qed

subsection \<open>Construction\<close>

text \<open>
  Claim C9, as stated, fails: a configuration that is degenerate in every listed way
  (grid size 1, world size 0, an empty sample array, and hence no cell size) is accepted,
  and the constructor returns a model.
\<close>

theorem TerrainBuilder_new_degenerate:
  "\<not> isl (TerrainBuilder_new [] 1 0 14 0)
   \<and> TerrainBuilder_new [] 1 0 14 0 =
       Inr \<lparr> heights = [], sizeN = 1, cols = 0, worldSize = 0, heightScale = 14,
             heightOffset = 0, cellSize = NaN \<rparr>"
  by (simp add: TerrainBuilder_new_def)

text \<open>
  Claim C9, amended. Construction performs no validation: for every configuration it
  returns a model that holds the given samples, size, world size, height scale and offset
  unchanged, with \<open>cols = size - 1\<close> and \<open>cellSize = worldSize / (size - 1)\<close>, which is an
  infinity or NaN when \<open>size = 1\<close>.
\<close>

theorem TerrainBuilder_new_total:
  "\<exists>t. TerrainBuilder_new hs n ws hsc hoff = Inr t
     \<and> heights t = hs \<and> sizeN t = n \<and> cols t = n - 1 \<and> worldSize t = ws
     \<and> heightScale t = hsc \<and> heightOffset t = hoff
     \<and> cellSize t = (if n = 1 then (if ws = 0 then NaN else if 0 < ws then PosInf else NegInf)
                      else Num (ws / of_int (n - 1)))"
  by (simp add: TerrainBuilder_new_def)

subsection \<open>Bilinear interpolation at a grid vertex\<close>

lemma finite_samples_nth:
  assumes "finite_samples hs" "k < length hs"
  shows "\<exists>r. hs ! k = Num r"
proof -
  have "case hs ! k of Num r \<Rightarrow> True | _ \<Rightarrow> False"
    using assms by (simp add: finite_samples_def list_all_length)
  then show ?thesis by (cases "hs ! k") auto
qed

lemma getHeight_finite:
  assumes "1 \<le> sizeN t" and "length (heights t) = nat (sizeN t * sizeN t)"
    and "finite_samples (heights t)"
  shows "\<exists>r. getHeight t (Num (of_int row)) (Num (of_int col)) = Num r"
proof -
  let ?n = "sizeN t"
  let ?r = "clampIndex ?n row" and ?c = "clampIndex ?n col"
  have r: "0 \<le> ?r" "?r < ?n" and c: "0 \<le> ?c" "?c < ?n"
    using clampIndex_range[OF assms(1)] by auto
  have inr: "nat (?r * ?n + ?c) < length (heights t)"
    using grid_index_in_range[OF r c assms(2)] by auto
  obtain h where "heights t ! nat (?r * ?n + ?c) = Num h"
    using finite_samples_nth[OF assms(3) inr] by blast
  then show ?thesis
    using getHeight_int[OF assms(1,2), of row col] by simp
qed

lemma bilinear_at_corner:
  "js_add
     (js_add
        (js_add (js_mul (js_mul (Num a) (js_sub (Num 1) (Num 0))) (js_sub (Num 1) (Num 0)))
                (js_mul (js_mul (Num b) (Num 0)) (js_sub (Num 1) (Num 0))))
        (js_mul (js_mul (Num c) (js_sub (Num 1) (Num 0))) (Num 0)))
     (js_mul (js_mul (Num d) (Num 0)) (Num 0)) = Num a"
  by (simp add: js_sub_def)

text \<open>
  Claim C3. For a terrain with grid size \<open>N \<ge> 2\<close>, finite samples, a non-zero world size
  and the cell size derived from it, \<open>getHeightAtWorld\<close> at the world position of the grid
  vertex \<open>(row, col)\<close>, that is \<open>x = col * cellSize - worldSize / 2\<close> and
  \<open>z = row * cellSize - worldSize / 2\<close>, equals \<open>getHeight\<close> at \<open>(row, col)\<close>: both fractional
  parts are zero and the bilinear blend reduces to the sample. In this model of exact
  arithmetic the two are equal, not merely close.
\<close>

theorem getHeightAtWorld_at_vertex:
  assumes "2 \<le> sizeN t" and "length (heights t) = nat (sizeN t * sizeN t)"
    and "finite_samples (heights t)"
    and "worldSize t \<noteq> 0"
    and "cellSize t = js_div (Num (worldSize t)) (Num (of_int (sizeN t - 1)))"
    and "0 \<le> row" "row < sizeN t" "0 \<le> col" "col < sizeN t"
  shows "getHeightAtWorld t (vertexCoord t col) (vertexCoord t row)
           = getHeight t (Num (of_int row)) (Num (of_int col))"
proof -
  define cs where "cs = worldSize t / of_int (sizeN t - 1)"
  have one: "1 \<le> sizeN t" using assms(1) by simp
  have csnz: "cs \<noteq> 0" using assms(1,4) by (simp add: cs_def)
  have cell: "cellSize t = Num cs" using assms(1,5) by (simp add: cs_def)
  have grid: "js_div (js_add (vertexCoord t k) (Num (worldSize t / 2))) (cellSize t)
                = Num (of_int k)" for k
    using csnz by (simp add: vertexCoord_def cell js_sub_def)
  have fl: "js_floor (Num (of_int k)) = Num (of_int k)" for k :: int by simp
  have nxt: "js_add (Num (of_int k)) (Num 1) = Num (of_int (k + 1))" for k :: int by simp
  have frac: "js_sub (Num (of_int k)) (Num (of_int k)) = Num 0" for k :: int
    by (simp add: js_sub_def)
  obtain h00 where h00: "getHeight t (Num (of_int row)) (Num (of_int col)) = Num h00"
    using getHeight_finite[OF one assms(2,3)] by blast
  obtain h10 where h10: "getHeight t (Num (of_int row)) (Num (of_int (col + 1))) = Num h10"
    using getHeight_finite[OF one assms(2,3)] by blast
  obtain h01 where h01: "getHeight t (Num (of_int (row + 1))) (Num (of_int col)) = Num h01"
    using getHeight_finite[OF one assms(2,3)] by blast
  obtain h11 where h11: "getHeight t (Num (of_int (row + 1))) (Num (of_int (col + 1))) = Num h11"
    using getHeight_finite[OF one assms(2,3)] by blast
  show ?thesis
    unfolding getHeightAtWorld_def Let_def grid fl nxt frac h00 h10 h01 h11
    by (rule bilinear_at_corner)
qed

theorem getHeightAtWorld_at_vertex_witness:
  "2 \<le> sizeN \<lparr> heights = [Num 0, Num (1/2), Num 1, Num (1/4)], sizeN = 2, cols = 1,
        worldSize = 4, heightScale = 10, heightOffset = 3, cellSize = Num 4 \<rparr>
   \<and> finite_samples [Num 0, Num (1/2), Num 1, Num (1/4)]
   \<and> js_div (Num 4) (Num (of_int (2 - 1))) = Num 4
   \<and> vertexCoord \<lparr> heights = [Num 0, Num (1/2), Num 1, Num (1/4)], sizeN = 2, cols = 1,
        worldSize = 4, heightScale = 10, heightOffset = 3, cellSize = Num 4 \<rparr> 1 = Num 2
   \<and> vertexCoord \<lparr> heights = [Num 0, Num (1/2), Num 1, Num (1/4)], sizeN = 2, cols = 1,
        worldSize = 4, heightScale = 10, heightOffset = 3, cellSize = Num 4 \<rparr> 0 = Num (- 2)
   \<and> getHeightAtWorld \<lparr> heights = [Num 0, Num (1/2), Num 1, Num (1/4)], sizeN = 2, cols = 1,
        worldSize = 4, heightScale = 10, heightOffset = 3, cellSize = Num 4 \<rparr>
        (Num 2) (Num (- 2)) = Num 8"
proof -
  let ?t = "\<lparr> heights = [Num 0, Num (1/2), Num 1, Num (1/4)], sizeN = 2, cols = 1,
        worldSize = 4, heightScale = 10, heightOffset = 3, cellSize = Num 4 \<rparr>"
  have h1: "2 \<le> sizeN ?t" by simp
  have h2: "length (heights ?t) = nat (sizeN ?t * sizeN ?t)" by simp
  have h3: "finite_samples (heights ?t)" by (simp add: finite_samples_def)
  have h4: "worldSize ?t \<noteq> 0" by simp
  have h5: "cellSize ?t = js_div (Num (worldSize ?t)) (Num (of_int (sizeN ?t - 1)))" by simp
  have v1: "vertexCoord ?t 1 = Num 2" and v0: "vertexCoord ?t 0 = Num (- 2)"
    by (simp_all add: vertexCoord_def js_sub_def)
  have g: "getHeight ?t (Num (of_int 0)) (Num (of_int 1)) = Num 8"
    using getHeight_int[of ?t 0 1] by (simp add: clampIndex_def)
  have "getHeightAtWorld ?t (vertexCoord ?t 1) (vertexCoord ?t 0)
          = getHeight ?t (Num (of_int 0)) (Num (of_int 1))"
    by (rule getHeightAtWorld_at_vertex[OF h1 h2 h3 h4 h5]) simp_all
  then show ?thesis using v1 v0 g h3 by simp
qed

section \<open>Properties of the procedural heightmap\<close>

subsection \<open>The noise blend\<close>

lemma blend_difference:
  fixes a b c d ux uy :: real
  shows "a + (b - a) * ux + (c - a) * uy + (d - a) * ux * uy + (b - a) * (1 - uy) * 0
       = a * (1 - ux) * (1 - uy) + b * ux * (1 - uy) + c * (1 - ux) * uy + d * ux * uy
         + (b + c - 2 * a) * ux * uy"
  by (simp add: algebra_simps)

lemma smoothNoiseH_difference: "smoothNoiseH h x y = properBilinearH h x y +
   (h (of_int \<lfloor>x\<rfloor> + 1) (of_int \<lfloor>y\<rfloor>) + h (of_int \<lfloor>x\<rfloor>) (of_int \<lfloor>y\<rfloor> + 1) - 2 * h (of_int \<lfloor>x\<rfloor>) (of_int \<lfloor>y\<rfloor>))
    * ((x - of_int \<lfloor>x\<rfloor>) * (x - of_int \<lfloor>x\<rfloor>) * (3 - 2 * (x - of_int \<lfloor>x\<rfloor>)))
    * ((y - of_int \<lfloor>y\<rfloor>) * (y - of_int \<lfloor>y\<rfloor>) * (3 - 2 * (y - of_int \<lfloor>y\<rfloor>)))"
  unfolding smoothNoiseH_def properBilinearH_def Let_def
  by (rule blend_difference)

lemma noise_origin: "noise 0 0 = 0" by (simp add: noise_def)



text \<open>
  Claim C4 says that \<open>smoothNoise\<close> returns the conventional bilinear blend
  \<open>a(1-ux)(1-uy) + b ux (1-uy) + c (1-ux) uy + d ux uy\<close>. The function returns at its first
  \<open>return\<close>, whose expression exceeds that blend by \<open>(b + c - 2a) ux uy\<close>
  (\<open>smoothNoiseH_difference\<close>). At \<open>x = y = 1/2\<close>, where \<open>ux = uy = 1/2\<close> and \<open>a = noise(0,0) = 0\<close>,
  the returned value is the blend plus \<open>(noise(1,0) + noise(0,1)) / 4\<close>.
\<close>

theorem smoothNoise_at_half:
  "smoothNoise (1/2) (1/2) = properBilinear (1/2) (1/2) + (noise 1 0 + noise 0 1) / 4"
  by (simp add: smoothNoise_def properBilinear_def smoothNoiseH_def properBilinearH_def Let_def
        noise_origin field_simps)

subsection \<open>The sampling loops\<close>













subsection \<open>The rescaled grid\<close>




text \<open>
  The two roundings do not cancel: with the least sample 0 and the greatest sample \<open>0.65\<close>,
  the stored greatest sample is \<open>10905190 / 2 ^ 24\<close>, below \<open>0.65\<close>, and the entry of its
  cell is \<open>1 - 1 / 2 ^ 24\<close>, not 1.
\<close>

lemma fround_sample: "fround 0.65 = 10905190 / 2 ^ 24"
  using roundTo_nearest[of "- 1" "0.65" "1 / 2 ^ 24" 24 10905190]
  by (simp add: fround_def powr_minus_divide)

lemma fround_quotient: "fround ((10905190 / 2 ^ 24 - 0) / (0.65 - 0)) = 1 - 1 / 2 ^ 24"
  using roundTo_nearest[of "- 1" "(10905190 / 2 ^ 24 - 0) / (0.65 - 0)" "1 / 2 ^ 24" 24 16777215]
  by (simp add: fround_def powr_minus_divide)

lemma rescale_inexact: "fround ((fround 0.65 - 0) / (0.65 - 0)) = 1 - 1 / 2 ^ 24"
  unfolding fround_sample by (rule fround_quotient)



subsection \<open>A value of the hash\<close>





















subsection \<open>The generator\<close>





section \<open>Properties of the controller\<close>

subsection \<open>Jump and cooldown\<close>

text \<open>
  Claim C7. If at the start of a step the actor is grounded, \<open>jumpCooldown \<le> 0\<close> and the jump
  key is pressed, with gravity \<open>-25\<close> and jump force 9, then after the step the vertical
  velocity is exactly 9 (the jump assignment overrides the gravity integration and the
  ground clamp of that step) and \<open>jumpCooldown\<close> is \<open>0.4\<close>.
\<close>

theorem update_jump:
  assumes "isGrounded c" and "jumpCooldown c \<le> 0" and "pressed c ''Space''"
    and "GRAVITY c = - 25" and "JUMP_FORCE c = 9"
  shows "velY (fst (update resolve dt c)) = 9 \<and> jumpCooldown (fst (update resolve dt c)) = 0.4"
  using assms by (simp add: update_def Let_def)

theorem update_jump_witness:
  "isGrounded (keydown ''Space'' (FPSController_new\<lparr>isGrounded := True\<rparr>))
   \<and> jumpCooldown (keydown ''Space'' (FPSController_new\<lparr>isGrounded := True\<rparr>)) \<le> 0
   \<and> pressed (keydown ''Space'' (FPSController_new\<lparr>isGrounded := True\<rparr>)) ''Space''
   \<and> GRAVITY (keydown ''Space'' (FPSController_new\<lparr>isGrounded := True\<rparr>)) = - 25
   \<and> JUMP_FORCE (keydown ''Space'' (FPSController_new\<lparr>isGrounded := True\<rparr>)) = 9
   \<and> velY (fst (update (\<lambda>d. (d, True)) (1 / 60)
        (keydown ''Space'' (FPSController_new\<lparr>isGrounded := True\<rparr>)))) = 9
   \<and> jumpCooldown (fst (update (\<lambda>d. (d, True)) (1 / 60)
        (keydown ''Space'' (FPSController_new\<lparr>isGrounded := True\<rparr>)))) = 0.4"
proof -
  let ?c = "keydown ''Space'' (FPSController_new\<lparr>isGrounded := True\<rparr>)"
  have h: "isGrounded ?c" "jumpCooldown ?c \<le> 0" "pressed ?c ''Space''"
          "GRAVITY ?c = - 25" "JUMP_FORCE ?c = 9"
    by (simp_all add: keydown_def FPSController_new_def pressed_def)
  show ?thesis
    using update_jump[OF h, of "\<lambda>d. (d, True)" "1 / 60"] h by simp
qed

text \<open>
  Claim C8, as stated, fails: a step from the initial state (\<open>jumpCooldown = 0\<close>, no key
  pressed) with \<open>dt = 1/60\<close> leaves \<open>jumpCooldown\<close> at 0, not at \<open>- 1/60\<close>.
\<close>

theorem update_cooldown_not_decremented:
  "jumpCooldown (fst (update (\<lambda>d. (d, False)) (1 / 60) FPSController_new))
     \<noteq> jumpCooldown FPSController_new - 1 / 60"
  by (simp add: update_def Let_def FPSController_new_def pressed_def)

text \<open>
  Claim C8, amended. A step decrements \<open>jumpCooldown\<close> by \<open>dt\<close> only when its prior value is
  positive; a prior value at or below zero is left unchanged. When the jump fires in the
  step (jump key pressed, grounded, and the cooldown after that decrement at or below 0),
  the cooldown is \<open>0.4\<close> after the step instead.
\<close>

theorem update_cooldown:
  "jumpCooldown (fst (update resolve dt c)) =
     (if pressed c ''Space'' \<and> isGrounded c
         \<and> (if 0 < jumpCooldown c then jumpCooldown c - dt else jumpCooldown c) \<le> 0
      then 0.4
      else if 0 < jumpCooldown c then jumpCooldown c - dt else jumpCooldown c)"
  by (simp add: update_def Let_def)

subsection \<open>Horizontal movement intent\<close>

lemma intent_raw:
  fixes a b s c :: real
  assumes "s * s + c * c = 1"
  shows "(b * c - a * s) * (b * c - a * s) + (- (a * c) - b * s) * (- (a * c) - b * s) = a * a + b * b"
proof -
  have "(b * c - a * s) * (b * c - a * s) + (- (a * c) - b * s) * (- (a * c) - b * s)
          = (a * a + b * b) * (s * s + c * c)"
    by (simp add: algebra_simps)
  then show ?thesis using assms by simp
qed

lemma sin_cos_unit: "sin (t::real) * sin t + cos t * cos t = 1"
  using sin_cos_squared_add[of t] by (simp add: power2_eq_square)

lemma raw_sum_cases:
  fixes a b :: real
  assumes "a \<in> {- 1, 0, 1}" "b \<in> {- 1, 0, 1}"
  shows "a * a + b * b = 0 \<and> a = 0 \<and> b = 0 \<or> 1 \<le> a * a + b * b"
  using assms by auto

lemma normalize_scaled_length:
  assumes "0 < lengthSq v" "0 \<le> s"
  shows "length3 (multiplyScalar (normalize v) s) = s"
proof -
  obtain x y z where v: "v = (x, y, z)" by (cases v) auto
  define l where "l = sqrt (x * x + y * y + z * z)"
  define k where "k = 1 / l * s"
  have q: "0 < x * x + y * y + z * z" using assms(1) by (simp add: v lengthSq_def)
  then have lpos: "0 < l" by (simp add: l_def)
  have ll: "l * l = x * x + y * y + z * z" using q by (simp add: l_def)
  have len: "length3 (x, y, z) = l" by (simp add: length3_def lengthSq_def l_def)
  have n: "multiplyScalar (normalize v) s = (x * k, y * k, z * k)"
    using lpos by (simp add: normalize_def multiplyScalar_def len v k_def)
  have kk: "k * k * (l * l) = s * s" using lpos by (simp add: k_def)
  have "lengthSq (multiplyScalar (normalize v) s) = k * k * (x * x + y * y + z * z)"
    unfolding n lengthSq_def by (simp add: algebra_simps)
  also have "\<dots> = s * s" using kk ll by simp
  finally have "lengthSq (multiplyScalar (normalize v) s) = s * s" .
  then show ?thesis using assms(2) by (simp add: length3_def)
qed

lemma rawIntent_form:
  "\<exists>a b. a \<in> {- 1, 0, 1} \<and> b \<in> {- 1, 0, 1} \<and>
     rawIntent c = (b * cos (yaw c) - a * sin (yaw c), 0, - (a * cos (yaw c)) - b * sin (yaw c))"
proof -
  define a :: real where "a = (if pressed c ''KeyW'' \<or> pressed c ''ArrowUp'' then 1 else 0)
                               - (if pressed c ''KeyS'' \<or> pressed c ''ArrowDown'' then 1 else 0)"
  define b :: real where "b = (if pressed c ''KeyD'' \<or> pressed c ''ArrowRight'' then 1 else 0)
                               - (if pressed c ''KeyA'' \<or> pressed c ''ArrowLeft'' then 1 else 0)"
  have "a \<in> {- 1, 0, 1}" "b \<in> {- 1, 0, 1}" by (auto simp: a_def b_def)
  moreover have "rawIntent c =
       (b * cos (yaw c) - a * sin (yaw c), 0, - (a * cos (yaw c)) - b * sin (yaw c))"
    unfolding rawIntent_def Let_def a_def b_def addScaledVector_def
    by simp
  ultimately show ?thesis by blast
qed

lemma rawIntent_lengthSq:
  "rawIntent c = (0, 0, 0) \<or> 1 \<le> lengthSq (rawIntent c)"
proof -
  obtain a b where ab: "a \<in> {- 1, 0, 1}" "b \<in> {- 1, 0, 1 :: real}"
    and m: "rawIntent c =
              (b * cos (yaw c) - a * sin (yaw c), 0, - (a * cos (yaw c)) - b * sin (yaw c))"
    using rawIntent_form[of c] by blast
  have lsq: "lengthSq (rawIntent c) = a * a + b * b"
    using intent_raw[OF sin_cos_unit, of b "yaw c" a] by (simp add: lengthSq_def m)
  from raw_sum_cases[OF ab] show ?thesis
  proof
    assume "a * a + b * b = 0 \<and> a = 0 \<and> b = 0"
    then have "rawIntent c = (0, 0, 0)" unfolding m by simp
    then show ?thesis ..
  next
    assume "1 \<le> a * a + b * b"
    then show ?thesis using lsq by simp
  qed
qed

lemma moveIntent_magnitude:
  assumes "0 \<le> targetSpeed c"
  shows "moveIntent c = (0, 0, 0) \<and> rawIntent c = (0, 0, 0)
       \<or> 0.001 < lengthSq (rawIntent c) \<and> length3 (moveIntent c) = targetSpeed c"
  using rawIntent_lengthSq[of c]
proof
  assume z: "rawIntent c = (0, 0, 0)"
  then have "moveIntent c = (0, 0, 0)" by (simp add: moveIntent_def Let_def lengthSq_def)
  then show ?thesis using z by simp
next
  assume one: "1 \<le> lengthSq (rawIntent c)"
  then have big: "lengthSq (rawIntent c) > 0.001" and pos: "0 < lengthSq (rawIntent c)" by simp_all
  have "moveIntent c = multiplyScalar (normalize (rawIntent c)) (targetSpeed c)"
    unfolding moveIntent_def Let_def using big by simp
  then show ?thesis using normalize_scaled_length[OF pos assms] big by simp
qed

subsection \<open>The movement vector in double precision\<close>

text \<open>
  The error analysis of \<open>normalize().multiplyScalar(speed)\<close> followed by \<open>length()\<close>: nine
  roundings separate the computed length from the speed, whatever the vector that is
  normalised.
\<close>

lemma square_close:
  assumes "closeTo k a \<bar>x\<bar>" "0 \<le> a"
  shows "closeTo (Suc (2 * k)) (a * a) (d_mul x x)" and "0 \<le> d_mul x x"
proof -
  have "closeTo (k + k) (a * a) (\<bar>x\<bar> * \<bar>x\<bar>)"
    using closeTo_mult[OF assms(1) assms(1)] assms(2) by simp
  then have "closeTo (2 * k) (a * a) (x * x)" by (simp add: mult_2)
  then show "closeTo (Suc (2 * k)) (a * a) (d_mul x x)"
    unfolding d_mul_def using assms(2) by (intro closeTo_double_nonneg) simp_all
  show "0 \<le> d_mul x x" by (simp add: d_mul_def double_nonneg)
qed

lemma lengthSqD_close:
  assumes "closeTo k a \<bar>x\<bar>" "closeTo k b \<bar>y\<bar>" "closeTo k c \<bar>z\<bar>"
    and "0 \<le> a" "0 \<le> b" "0 \<le> c"
  shows "closeTo (2 * k + 3) (a * a + b * b + c * c) (lengthSqD (x, y, z))"
    and "0 \<le> lengthSqD (x, y, z)"
proof -
  note sx = square_close[OF assms(1) assms(4)]
  note sy = square_close[OF assms(2) assms(5)]
  note sz = square_close[OF assms(3) assms(6)]
  have s1: "closeTo (Suc (2 * k)) (a * a + b * b) (d_mul x x + d_mul y y)"
    by (rule closeTo_add[OF sx(1) sy(1)])
  have n1: "0 \<le> d_mul x x + d_mul y y" using sx(2) sy(2) by simp
  have s2: "closeTo (Suc (Suc (2 * k))) (a * a + b * b) (d_add (d_mul x x) (d_mul y y))"
    unfolding d_add_def using s1 n1 by (intro closeTo_double_nonneg) simp_all
  have n2: "0 \<le> d_add (d_mul x x) (d_mul y y)"
    unfolding d_add_def using n1 by (rule double_nonneg)
  have s3: "closeTo (Suc (Suc (2 * k))) (c * c) (d_mul z z)"
    using sz by (intro closeTo_mono[OF sz(1)]) simp_all
  have s4: "closeTo (Suc (Suc (2 * k))) (a * a + b * b + c * c)
              (d_add (d_mul x x) (d_mul y y) + d_mul z z)"
    by (rule closeTo_add[OF s2 s3])
  have n4: "0 \<le> d_add (d_mul x x) (d_mul y y) + d_mul z z" using n2 sz(2) by simp
  have "closeTo (Suc (Suc (Suc (2 * k)))) (a * a + b * b + c * c)
          (d_add (d_add (d_mul x x) (d_mul y y)) (d_mul z z))"
    unfolding d_add_def[of "d_add (d_mul x x) (d_mul y y)"]
    using s4 n4 by (intro closeTo_double_nonneg) simp_all
  then show "closeTo (2 * k + 3) (a * a + b * b + c * c) (lengthSqD (x, y, z))"
    by (simp add: lengthSqD_def numeral_3_eq_3)
  show "0 \<le> lengthSqD (x, y, z)"
    unfolding lengthSqD_def prod.case d_add_def[of "d_add (d_mul x x) (d_mul y y)"]
    using n4 by (rule double_nonneg)
qed

lemma length3D_close:
  assumes "closeTo k a \<bar>x\<bar>" "closeTo k b \<bar>y\<bar>" "closeTo k c \<bar>z\<bar>"
    and "0 \<le> a" "0 \<le> b" "0 \<le> c"
  shows "closeTo (k + 3) (sqrt (a * a + b * b + c * c)) (length3D (x, y, z))"
    and "0 \<le> length3D (x, y, z)"
proof -
  note l = lengthSqD_close[OF assms]
  have s: "0 \<le> a * a + b * b + c * c" by simp
  have "closeTo (2 * (k + 2)) (a * a + b * b + c * c) (lengthSqD (x, y, z))"
    using closeTo_mono[OF l(1) _ s l(2), of "2 * (k + 2)"] by simp
  then have "closeTo (k + 2) (sqrt (a * a + b * b + c * c)) (sqrt (lengthSqD (x, y, z)))"
    using s l(2) by (rule closeTo_sqrt)
  then have "closeTo (Suc (k + 2)) (sqrt (a * a + b * b + c * c)) (double (sqrt (lengthSqD (x, y, z))))"
    using s l(2) by (intro closeTo_double_nonneg) simp_all
  then show "closeTo (k + 3) (sqrt (a * a + b * b + c * c)) (length3D (x, y, z))"
    by (simp add: length3D_def d_sqrt_def numeral_3_eq_3)
  show "0 \<le> length3D (x, y, z)"
    unfolding length3D_def d_sqrt_def using l(2) by (intro double_nonneg) simp
qed

lemma scaled_component_close:
  assumes "closeTo 4 (1 / r) i" "0 < r" "0 \<le> i" "0 \<le> s"
  shows "closeTo 6 (\<bar>x\<bar> / r * s) \<bar>d_mul (d_mul x i) s\<bar>"
proof -
  have "closeTo (0 + 4) (\<bar>x\<bar> * (1 / r)) (\<bar>x\<bar> * i)"
    using assms by (intro closeTo_mult closeTo_refl) simp_all
  then have "closeTo 4 (\<bar>x\<bar> / r) \<bar>x * i\<bar>" using assms(3) by (simp add: abs_mult)
  then have "closeTo (Suc 4) (\<bar>x\<bar> / r) \<bar>double (x * i)\<bar>"
    using assms(2) by (intro closeTo_double) simp_all
  then have c5: "closeTo 5 (\<bar>x\<bar> / r) \<bar>d_mul x i\<bar>" by (simp add: d_mul_def)
  have "closeTo (5 + 0) (\<bar>x\<bar> / r * s) (\<bar>d_mul x i\<bar> * s)"
    using assms c5 by (intro closeTo_mult closeTo_refl) simp_all
  then have "closeTo 5 (\<bar>x\<bar> / r * s) \<bar>d_mul x i * s\<bar>" using assms(4) by (simp add: abs_mult)
  then have "closeTo (Suc 5) (\<bar>x\<bar> / r * s) \<bar>double (d_mul x i * s)\<bar>"
    using assms(2,4) by (intro closeTo_double) simp_all
  then show ?thesis by (simp add: d_mul_def[of "d_mul x i"])
qed

lemma scaled_squares:
  fixes a b c r s :: real
  shows "a / r * s * (a / r * s) + b / r * s * (b / r * s) + c / r * s * (c / r * s)
           = (a * a + b * b + c * c) / (r * r) * (s * s)"
  by (cases "r = 0") (simp_all add: field_simps)

lemma normalizeD_scaled_close:
  assumes "0 < lengthSqD (x, y, z)" "0 \<le> s"
  shows "closeTo 9 s (length3D (multiplyScalarD (normalizeD (x, y, z)) s))"
    and "0 \<le> length3D (multiplyScalarD (normalizeD (x, y, z)) s)"
proof -
  define S where "S = x * x + y * y + z * z"
  define r where "r = sqrt S"
  define len where "len = length3D (x, y, z)"
  define i where "i = d_div 1 len"
  have q: "closeTo (2 * 0 + 3) (\<bar>x\<bar> * \<bar>x\<bar> + \<bar>y\<bar> * \<bar>y\<bar> + \<bar>z\<bar> * \<bar>z\<bar>) (lengthSqD (x, y, z))"
    by (intro lengthSqD_close closeTo_refl) simp_all
  then have "closeTo 3 S (lengthSqD (x, y, z))" by (simp add: S_def)
  then have Spos: "0 < S" using assms(1) by (rule closeTo_pos)
  then have rpos: "0 < r" by (simp add: r_def)
  have rr: "r * r = S" using Spos by (simp add: r_def)
  have "closeTo (0 + 3) (sqrt (\<bar>x\<bar> * \<bar>x\<bar> + \<bar>y\<bar> * \<bar>y\<bar> + \<bar>z\<bar> * \<bar>z\<bar>)) (length3D (x, y, z))"
    by (intro length3D_close closeTo_refl) simp_all
  then have cl: "closeTo 3 r len" by (simp add: r_def S_def len_def)
  then have lpos: "0 < len" using rpos by (rule closeTo_pos')
  have "closeTo 3 (1 / r) (1 / len)" using cl rpos lpos by (rule closeTo_inverse)
  then have "closeTo (Suc 3) (1 / r) (double (1 / len))"
    using rpos lpos by (intro closeTo_double_nonneg) simp_all
  then have ci: "closeTo 4 (1 / r) i" by (simp add: i_def d_div_def)
  have ipos: "0 \<le> i" unfolding i_def d_div_def using lpos by (intro double_nonneg) simp
  have n: "multiplyScalarD (normalizeD (x, y, z)) s
            = (d_mul (d_mul x i) s, d_mul (d_mul y i) s, d_mul (d_mul z i) s)"
    using lpos by (simp add: normalizeD_def multiplyScalarD_def len_def[symmetric] i_def)
  note c = scaled_component_close[OF ci rpos ipos assms(2)]
  have nn: "0 \<le> \<bar>x\<bar> / r * s" "0 \<le> \<bar>y\<bar> / r * s" "0 \<le> \<bar>z\<bar> / r * s"
    using rpos assms(2) by simp_all
  have L: "closeTo (6 + 3)
       (sqrt (\<bar>x\<bar> / r * s * (\<bar>x\<bar> / r * s) + \<bar>y\<bar> / r * s * (\<bar>y\<bar> / r * s)
              + \<bar>z\<bar> / r * s * (\<bar>z\<bar> / r * s)))
       (length3D (d_mul (d_mul x i) s, d_mul (d_mul y i) s, d_mul (d_mul z i) s))"
    by (intro length3D_close c nn)
  have "\<bar>x\<bar> / r * s * (\<bar>x\<bar> / r * s) + \<bar>y\<bar> / r * s * (\<bar>y\<bar> / r * s)
              + \<bar>z\<bar> / r * s * (\<bar>z\<bar> / r * s)
        = (\<bar>x\<bar> * \<bar>x\<bar> + \<bar>y\<bar> * \<bar>y\<bar> + \<bar>z\<bar> * \<bar>z\<bar>) / (r * r) * (s * s)"
    by (rule scaled_squares)
  also have "\<dots> = s * s" using Spos by (simp add: rr S_def)
  finally have "sqrt (\<bar>x\<bar> / r * s * (\<bar>x\<bar> / r * s) + \<bar>y\<bar> / r * s * (\<bar>y\<bar> / r * s)
              + \<bar>z\<bar> / r * s * (\<bar>z\<bar> / r * s)) = s"
    using assms(2) by simp
  then show "closeTo 9 s (length3D (multiplyScalarD (normalizeD (x, y, z)) s))"
    using L unfolding n by simp
  show "0 \<le> length3D (multiplyScalarD (normalizeD (x, y, z)) s)"
    unfolding n by (rule length3D_close(2)[OF c[of x] c[of y] c[of z] nn])
qed

lemma closeTo_tolerance:
  assumes "closeTo 9 s l" "0 \<le> s" "0 \<le> l"
  shows "\<bar>l - s\<bar> \<le> s / 2 ^ 49"
proof -
  have "1 + real 9 * (- (1 / 2 ^ 53)) \<le> (1 + (- (1 / 2 ^ 53)) :: real) ^ 9"
    by (rule Bernoulli_inequality) simp
  then have t: "1 - 9 / 2 ^ 53 \<le> (1 - 1 / 2 ^ 53 :: real) ^ 9" by simp
  have "s * (1 - 9 / 2 ^ 53) \<le> s * (1 - 1 / 2 ^ 53) ^ 9"
    using t assms(2) by (rule mult_left_mono)
  then have 1: "s * (1 - 9 / 2 ^ 53) \<le> l" using assms(1) by (simp add: closeTo_def)
  have "l * (1 - 9 / 2 ^ 53) \<le> l * (1 - 1 / 2 ^ 53) ^ 9"
    using t assms(3) by (rule mult_left_mono)
  then have 2: "l * (1 - 9 / 2 ^ 53) \<le> s" using assms(1) by (simp add: closeTo_def)
  have a1: "s * 9007199254740983 \<le> l * 9007199254740992" using 1 by simp
  have a2: "l * 9007199254740983 \<le> s * 9007199254740992" using 2 by simp
  have e: "(2::real) ^ 49 = 562949953421312" by simp
  have "l - s \<le> s / 562949953421312" "- (l - s) \<le> s / 562949953421312"
    using a1 a2 assms(2,3) by linarith+
  then show ?thesis unfolding e abs_le_iff by blast
qed

lemma targetSpeedD_nonneg:
  assumes "0 \<le> MOVE_SPEED c" "0 \<le> SPRINT_MULT c"
  shows "0 \<le> targetSpeedD c"
  unfolding targetSpeedD_def d_mul_def using assms
  by (intro double_nonneg mult_nonneg_nonneg) (simp_all add: double_nonneg)

lemma moveIntentD_magnitude:
  assumes "0 \<le> targetSpeedD c"
  shows "if double 0.001 < lengthSqD (rawIntentD c)
         then moveIntentD c = multiplyScalarD (normalizeD (rawIntentD c)) (targetSpeedD c)
              \<and> \<bar>length3D (moveIntentD c) - targetSpeedD c\<bar> \<le> targetSpeedD c / 2 ^ 49
         else moveIntentD c = rawIntentD c"
proof (cases "double 0.001 < lengthSqD (rawIntentD c)")
  case False
  then show ?thesis by (simp add: moveIntentD_def Let_def)
next
  case True
  obtain x y z where v: "rawIntentD c = (x, y, z)" by (cases "rawIntentD c") auto
  have "0 \<le> double 0.001" by (rule double_nonneg) simp
  then have pos: "0 < lengthSqD (x, y, z)" using True by (simp add: v)
  have m: "moveIntentD c = multiplyScalarD (normalizeD (x, y, z)) (targetSpeedD c)"
    using True by (simp add: moveIntentD_def Let_def v)
  note n = normalizeD_scaled_close[OF pos assms]
  have "\<bar>length3D (moveIntentD c) - targetSpeedD c\<bar> \<le> targetSpeedD c / 2 ^ 49"
    unfolding m using n(1) assms n(2) by (rule closeTo_tolerance)
  then show ?thesis using True m by (simp add: v)
qed

text \<open>
  Claim C10, as stated, fails: with \<open>W\<close> and \<open>D\<close> held at \<open>yaw = 0\<close> and the constructor's
  speed 8, the sum of the pressed directions is \<open>(1, 0, -1)\<close>, and normalising and scaling
  it in double precision gives a vector whose computed length is
  \<open>9007199254740991 / 2 ^ 50\<close>, the double just below 8 (printed \<open>7.999999999999999\<close>): a
  non-zero magnitude that is not exactly the target speed. The exact length of the
  computed vector is not 8 either.
\<close>

theorem moveIntentD_diagonal:
  "targetSpeedD (keydown ''KeyD'' (keydown ''KeyW'' FPSController_new)) = 8
   \<and> length3D (moveIntentD (keydown ''KeyD'' (keydown ''KeyW'' FPSController_new)))
       = 9007199254740991 / 2 ^ 50
   \<and> length3D (moveIntentD (keydown ''KeyD'' (keydown ''KeyW'' FPSController_new)))
       \<noteq> targetSpeedD (keydown ''KeyD'' (keydown ''KeyW'' FPSController_new))
   \<and> length3D (moveIntentD (keydown ''KeyD'' (keydown ''KeyW'' FPSController_new))) \<noteq> 0
   \<and> lengthSq (moveIntentD (keydown ''KeyD'' (keydown ''KeyW'' FPSController_new))) \<noteq> 8 * 8"
proof -
  let ?c = "keydown ''KeyD'' (keydown ''KeyW'' FPSController_new)"
  define d :: real where "d = 6369051672525773 / 2 ^ 52"
  define i :: real where "i = 6369051672525772 / 2 ^ 53"
  define X :: real where "X = 6369051672525772 / 2 ^ 50"
  define q :: real where "q = 9007199254740990 / 2 ^ 48"
  define L :: real where "L = 9007199254740991 / 2 ^ 50"
  have dnz: "d \<noteq> 0" by (simp add: d_def)
  have f1: "double (sqrt 2) = d" using double_sqrt2 by (simp add: d_def)
  have f2: "double (1 / d) = i" using double_inv by (simp add: d_def i_def)
  have f3: "double i = i" "double (- i) = - i"
    using double_inv_exact double_minv_exact by (simp_all add: i_def)
  have f4: "double (i * 8) = X" "double (- (i * 8)) = - X"
    using double_scaled double_mscaled by (simp_all add: i_def X_def)
  have f5: "double (X * X) = q" using double_square by (simp add: X_def q_def)
  have f6: "double q = q" using double_square_exact by (simp add: q_def)
  have f7: "double (q + q) = double (2 * q)" by simp
  have f8: "double (2 * q) = 2 * q" using double_sum by (simp add: q_def)
  have f9: "double (sqrt (2 * q)) = L" using double_sqrt_sum by (simp add: q_def L_def)
  have fm: "double (1 / 1000) < 2" using double_milli by simp
  have ts: "targetSpeedD ?c = 8"
    by (simp add: targetSpeedD_def keydown_def FPSController_new_def pressed_def d_mul_def double_8)
  have raw: "rawIntentD ?c = (1, 0, - 1)"
    by (simp add: rawIntentD_def Let_def keydown_def FPSController_new_def pressed_def
          addScaledVectorD_def d_add_def d_mul_def double_0 double_1 double_m1)
  have lsq: "lengthSqD (1, 0, - 1) = 2"
    by (simp add: lengthSqD_def d_add_def d_mul_def double_0 double_1 double_2)
  have len: "length3D (1, 0, - 1) = d"
    by (simp add: length3D_def lsq d_sqrt_def f1)
  have nrm: "normalizeD (1, 0, - 1) = (i, 0, - i)"
    unfolding normalizeD_def len using dnz
    by (simp add: multiplyScalarD_def d_div_def d_mul_def f2 f3 double_0)
  have mi: "moveIntentD ?c = (X, 0, - X)"
    unfolding moveIntentD_def Let_def raw lsq ts nrm
    by (simp add: fm multiplyScalarD_def d_mul_def double_0 f4)
  have l: "length3D (moveIntentD ?c) = L"
    unfolding mi length3D_def lengthSqD_def
    by (simp add: d_add_def d_mul_def d_sqrt_def double_0 f5 f6 f8 f9)
  have e: "lengthSq (moveIntentD ?c) \<noteq> 8 * 8"
    unfolding mi by (simp add: lengthSq_def X_def)
  have "L \<noteq> 8" "L \<noteq> 0" by (simp_all add: L_def)
  then show ?thesis using e unfolding l ts L_def[symmetric] by simp
qed

text \<open>
  Claim C10, amended. With non-negative walking speed and sprint multiplier, the movement
  vector that a step computes is either the zero vector, which happens exactly when the
  sum of the pressed directions is zero (nothing pressed, or opposing keys cancel) and
  the dead-zone test leaves it alone, or its squared length before normalisation exceeds
  \<open>0.001\<close> and it is that sum normalised and scaled by the target speed: the walking
  speed, times the sprint multiplier while a shift key is held. Its length, which is the
  returned \<open>speed\<close>, then equals the target speed up to floating-point rounding: exactly
  in real arithmetic, and within the fraction \<open>1 / 2 ^ 49\<close> of the target speed in double
  precision, whenever the computed squared length passes the test (otherwise the vector
  is left as it is).
\<close>

theorem update_intent_magnitude:
  assumes "0 \<le> MOVE_SPEED c" and "0 \<le> SPRINT_MULT c"
  shows "(mov (fst (update resolve dt c)) = (0, 0, 0) \<and> rawIntent c = (0, 0, 0)
          \<or> 0.001 < lengthSq (rawIntent c)
            \<and> length3 (mov (fst (update resolve dt c))) = targetSpeed c)
       \<and> fst (snd (snd (update resolve dt c))) = length3 (mov (fst (update resolve dt c)))
       \<and> targetSpeed c =
           MOVE_SPEED c * (if pressed c ''ShiftLeft'' \<or> pressed c ''ShiftRight''
                           then SPRINT_MULT c else 1)
       \<and> (if double 0.001 < lengthSqD (rawIntentD c)
          then moveIntentD c = multiplyScalarD (normalizeD (rawIntentD c)) (targetSpeedD c)
               \<and> \<bar>length3D (moveIntentD c) - targetSpeedD c\<bar> \<le> targetSpeedD c / 2 ^ 49
          else moveIntentD c = rawIntentD c)"
proof -
  have "0 \<le> targetSpeed c" using assms by (simp add: targetSpeed_def)
  from moveIntent_magnitude[OF this]
  have exact: "(mov (fst (update resolve dt c)) = (0, 0, 0) \<and> rawIntent c = (0, 0, 0)
          \<or> 0.001 < lengthSq (rawIntent c)
            \<and> length3 (mov (fst (update resolve dt c))) = targetSpeed c)
       \<and> fst (snd (snd (update resolve dt c))) = length3 (mov (fst (update resolve dt c)))
       \<and> targetSpeed c =
           MOVE_SPEED c * (if pressed c ''ShiftLeft'' \<or> pressed c ''ShiftRight''
                           then SPRINT_MULT c else 1)"
    by (simp add: update_def Let_def targetSpeed_def)
  show ?thesis
    using exact moveIntentD_magnitude[OF targetSpeedD_nonneg[OF assms]] by blast
qed

theorem update_intent_magnitude_witness:
  "0 \<le> MOVE_SPEED (keydown ''KeyW'' FPSController_new)
   \<and> 0 \<le> SPRINT_MULT (keydown ''KeyW'' FPSController_new)
   \<and> rawIntent (keydown ''KeyW'' FPSController_new) = (0, 0, - 1)
   \<and> length3 (mov (fst (update (\<lambda>d. (d, False)) (1 / 60) (keydown ''KeyW'' FPSController_new)))) = 8
   \<and> rawIntentD (keydown ''KeyW'' FPSController_new) = (0, 0, - 1)
   \<and> double 0.001 < lengthSqD (rawIntentD (keydown ''KeyW'' FPSController_new))
   \<and> targetSpeedD (keydown ''KeyW'' FPSController_new) = 8
   \<and> \<bar>length3D (moveIntentD (keydown ''KeyW'' FPSController_new)) - 8\<bar> \<le> 8 / 2 ^ 49"
proof -
  let ?c = "keydown ''KeyW'' FPSController_new"
  have h: "0 \<le> MOVE_SPEED ?c" "0 \<le> SPRINT_MULT ?c"
    by (simp_all add: keydown_def FPSController_new_def)
  have raw: "rawIntent ?c = (0, 0, - 1)"
    by (simp add: rawIntent_def Let_def keydown_def FPSController_new_def pressed_def
          addScaledVector_def)
  have ts: "targetSpeed ?c = 8"
    by (simp add: targetSpeed_def keydown_def FPSController_new_def pressed_def)
  have rawD: "rawIntentD ?c = (0, 0, - 1)"
    by (simp add: rawIntentD_def Let_def keydown_def FPSController_new_def pressed_def
          addScaledVectorD_def d_add_def d_mul_def double_0 double_1 double_m1)
  have lsq: "lengthSqD (0, 0, - 1) = 1"
    by (simp add: lengthSqD_def d_add_def d_mul_def double_0 double_1)
  have fm: "double (1 / 1000) < 1" using double_milli by simp
  have big: "double 0.001 < lengthSqD (rawIntentD ?c)" unfolding rawD lsq using fm by simp
  have tsD: "targetSpeedD ?c = 8"
    by (simp add: targetSpeedD_def keydown_def FPSController_new_def pressed_def d_mul_def double_8)
  have nz: "rawIntent ?c \<noteq> (0, 0, 0)" by (simp add: raw)
  note main = update_intent_magnitude[OF h, of "\<lambda>d. (d, False)" "1 / 60"]
  from main have e: "length3 (mov (fst (update (\<lambda>d. (d, False)) (1 / 60) ?c))) = 8"
    using nz ts by simp
  from main have "if double 0.001 < lengthSqD (rawIntentD ?c)
      then moveIntentD ?c = multiplyScalarD (normalizeD (rawIntentD ?c)) (targetSpeedD ?c)
           \<and> \<bar>length3D (moveIntentD ?c) - targetSpeedD ?c\<bar> \<le> targetSpeedD ?c / 2 ^ 49
      else moveIntentD ?c = rawIntentD ?c"
    by blast
  then have "moveIntentD ?c = multiplyScalarD (normalizeD (rawIntentD ?c)) (targetSpeedD ?c)
           \<and> \<bar>length3D (moveIntentD ?c) - targetSpeedD ?c\<bar> \<le> targetSpeedD ?c / 2 ^ 49"
    unfolding if_P[OF big] .
  then have "\<bar>length3D (moveIntentD ?c) - targetSpeedD ?c\<bar> \<le> targetSpeedD ?c / 2 ^ 49"
    by (rule conjunct2)
  then have d: "\<bar>length3D (moveIntentD ?c) - 8\<bar> \<le> 8 / 2 ^ 49" unfolding tsD .
  show ?thesis using h raw e rawD big tsD d by blast
qed
section \<open>Properties of the terrain mesh\<close>

subsection \<open>Vertex positions\<close>

lemma vertexStep_positions:
  "fst (vertexStep t n row col (ps, us, cs)) =
     ps[(row * n + col) * 3 + 0 := vertexCoord t (int col),
        (row * n + col) * 3 + 1 := getHeight t (Num (of_int (int row))) (Num (of_int (int col))),
        (row * n + col) * 3 + 2 := vertexCoord t (int row)]"
  by (simp add: vertexStep_def Let_def)

lemma vertexStep_written:
  assumes "posWritten t n S (fst st)" "col < n"
  shows "posWritten t n (insert (row * n + col) S) (fst (vertexStep t n row col st))
       \<and> length (fst (vertexStep t n row col st)) = length (fst st)"
proof -
  obtain ps us cs where st: "st = (ps, us, cs)" by (cases st) auto
  let ?i = "row * n + col"
  let ?ps' = "fst (vertexStep t n row col st)"
  have ps': "?ps' = ps[?i * 3 + 0 := vertexCoord t (int col),
        ?i * 3 + 1 := getHeight t (Num (of_int (int row))) (Num (of_int (int col))),
        ?i * 3 + 2 := vertexCoord t (int row)]"
    unfolding st by (rule vertexStep_positions)
  have len: "length ?ps' = length ps" by (simp add: ps')
  have rc: "?i div n = row" "?i mod n = col" using assms(2) by auto
  have "?ps' ! k = posValue t n k" if k: "k < length ps" "k div 3 \<in> insert ?i S" for k
  proof (cases "k div 3 = ?i")
    case True
    then have "k = ?i * 3 + k mod 3" by (metis div_mult_mod_eq)
    moreover have "k mod 3 = 0 \<or> k mod 3 = 1 \<or> k mod 3 = 2" by arith
    ultimately have c: "k = ?i * 3 + 0 \<and> k mod 3 = 0 \<or> k = ?i * 3 + 1 \<and> k mod 3 = 1
                        \<or> k = ?i * 3 + 2 \<and> k mod 3 = 2"
      by auto
    have pv: "posValue t n k =
          (if k mod 3 = 0 then vertexCoord t (int col)
           else if k mod 3 = 1 then getHeight t (Num (of_int (int row))) (Num (of_int (int col)))
           else vertexCoord t (int row))"
      unfolding posValue_def Let_def True rc ..
    from c show ?thesis
    proof (elim disjE conjE)
      assume "k = ?i * 3 + 0" "k mod 3 = 0"
      then show ?thesis using k(1) unfolding pv ps' by simp
    next
      assume "k = ?i * 3 + 1" "k mod 3 = 1"
      then show ?thesis using k(1) unfolding pv ps' by simp
    next
      assume "k = ?i * 3 + 2" "k mod 3 = 2"
      then show ?thesis using k(1) unfolding pv ps' by simp
    qed
  next
    case False
    then have "k \<noteq> ?i * 3 + 0" "k \<noteq> ?i * 3 + 1" "k \<noteq> ?i * 3 + 2" by auto
    then have "?ps' ! k = ps ! k" unfolding ps' by simp
    moreover have "k div 3 \<in> S" using k(2) False by simp
    ultimately show ?thesis using assms(1) k(1) by (simp add: posWritten_def st)
  qed
  then show ?thesis using len by (simp add: posWritten_def st)
qed

lemma vertexCols_written:
  assumes "posWritten t n S (fst st)" "m \<le> n"
  shows "posWritten t n (S \<union> (\<lambda>col. row * n + col) ` {..<m}) (fst (vertexCols t n row m st))
       \<and> length (fst (vertexCols t n row m st)) = length (fst st)"
  using assms(2)
proof (induction m)
  case 0
  then show ?case using assms(1) by (simp add: vertexCols_def)
next
  case (Suc m)
  have step: "vertexCols t n row (Suc m) st = vertexStep t n row m (vertexCols t n row m st)"
    by (simp add: vertexCols_def)
  have mlt: "m < n" using Suc.prems by simp
  have IH: "posWritten t n (S \<union> (\<lambda>col. row * n + col) ` {..<m}) (fst (vertexCols t n row m st))"
    and len: "length (fst (vertexCols t n row m st)) = length (fst st)"
    using Suc.IH mlt by auto
  have set: "insert (row * n + m) (S \<union> (\<lambda>col. row * n + col) ` {..<m})
               = S \<union> (\<lambda>col. row * n + col) ` {..<Suc m}"
    by (auto simp: lessThan_Suc)
  show ?case
    using vertexStep_written[OF IH mlt, of row] len unfolding step set by simp
qed

lemma rows_union:
  fixes n m :: nat
  shows "{k. k < m * n} \<union> (\<lambda>col. m * n + col) ` {..<n} = {k. k < Suc m * n}"
proof (intro set_eqI iffI)
  fix k assume "k \<in> {k. k < m * n} \<union> (\<lambda>col. m * n + col) ` {..<n}"
  then show "k \<in> {k. k < Suc m * n}" by auto
next
  fix k assume k: "k \<in> {k. k < Suc m * n}"
  show "k \<in> {k. k < m * n} \<union> (\<lambda>col. m * n + col) ` {..<n}"
  proof (cases "k < m * n")
    case True then show ?thesis by simp
  next
    case False
    then have "k = m * n + (k - m * n)" "k - m * n < n" using k by auto
    then show ?thesis by (metis UnI2 imageI lessThan_iff)
  qed
qed

lemma vertexRows_written:
  assumes "m \<le> n"
  shows "posWritten t n {k. k < m * n} (fst (vertexRows t n m st))
       \<and> length (fst (vertexRows t n m st)) = length (fst st)"
  using assms
proof (induction m)
  case 0
  then show ?case by (simp add: vertexRows_def posWritten_def)
next
  case (Suc m)
  have step: "vertexRows t n (Suc m) st = vertexCols t n m n (vertexRows t n m st)"
    by (simp add: vertexRows_def)
  have IH: "posWritten t n {k. k < m * n} (fst (vertexRows t n m st))"
    and len: "length (fst (vertexRows t n m st)) = length (fst st)"
    using Suc by auto
  show ?case
    using vertexCols_written[OF IH le_refl, of m] len unfolding step rows_union by simp
qed

subsection \<open>Triangle indices\<close>

lemma length_rowIndices [simp]: "length (rowIndices n row m) = 6 * m"
  by (induction m) (simp_all add: rowIndices_def cellIndices_def)

lemma length_gridIndices [simp]: "length (gridIndices n c m) = 6 * c * m"
  by (induction m) (simp_all add: gridIndices_def algebra_simps)

lemma take_six_updates:
  assumes "idx + 6 \<le> length xs"
  shows "take (idx + 6) (xs[idx := a, idx + 1 := b, idx + 2 := c, idx + 3 := d, idx + 4 := e,
                            idx + 5 := f])
           = take idx xs @ [a, b, c, d, e, f]"
proof (rule nth_equalityI)
  show "length (take (idx + 6) (xs[idx := a, idx + 1 := b, idx + 2 := c, idx + 3 := d,
          idx + 4 := e, idx + 5 := f])) = length (take idx xs @ [a, b, c, d, e, f])"
    using assms by simp
next
  fix i assume "i < length (take (idx + 6) (xs[idx := a, idx + 1 := b, idx + 2 := c, idx + 3 := d,
          idx + 4 := e, idx + 5 := f]))"
  then have i: "i < idx + 6" by simp
  consider "i < idx" | "i = idx" | "i = idx + 1" | "i = idx + 2" | "i = idx + 3" | "i = idx + 4"
    | "i = idx + 5" using i by linarith
  then show "take (idx + 6) (xs[idx := a, idx + 1 := b, idx + 2 := c, idx + 3 := d,
          idx + 4 := e, idx + 5 := f]) ! i = (take idx xs @ [a, b, c, d, e, f]) ! i"
    using assms by cases (simp_all add: nth_append)
qed

lemma cellStep_take:
  assumes "idx + 6 \<le> length xs"
  shows "cellStep n row col (xs, idx) = (fst (cellStep n row col (xs, idx)), idx + 6)
       \<and> length (fst (cellStep n row col (xs, idx))) = length xs
       \<and> take (idx + 6) (fst (cellStep n row col (xs, idx))) = take idx xs @ cellIndices n row col"
  using take_six_updates[OF assms]
  by (simp add: cellStep_def Let_def cellIndices_def)

lemma cellCols_take:
  assumes "idx + 6 * m \<le> length xs"
  shows "snd (cellCols n row m (xs, idx)) = idx + 6 * m
       \<and> length (fst (cellCols n row m (xs, idx))) = length xs
       \<and> take (idx + 6 * m) (fst (cellCols n row m (xs, idx))) = take idx xs @ rowIndices n row m"
  using assms
proof (induction m)
  case 0
  then show ?case by (simp add: cellCols_def rowIndices_def)
next
  case (Suc m)
  obtain ys j where r: "cellCols n row m (xs, idx) = (ys, j)" by (cases "cellCols n row m (xs, idx)")
  have IH: "j = idx + 6 * m" "length ys = length xs"
           "take (idx + 6 * m) ys = take idx xs @ rowIndices n row m"
    using Suc r by auto
  have step: "cellCols n row (Suc m) (xs, idx) = cellStep n row m (ys, j)"
    by (simp add: cellCols_def r[unfolded cellCols_def])
  have room: "j + 6 \<le> length ys" using Suc.prems IH by simp
  have ri: "rowIndices n row (Suc m) = rowIndices n row m @ cellIndices n row m"
    by (simp add: rowIndices_def)
  have "idx + 6 * Suc m = j + 6" using IH(1) by simp
  then show ?case
    using cellStep_take[OF room, of n row m] IH unfolding step ri
    by (metis append.assoc fst_conv snd_conv)
qed

lemma cellRows_take:
  assumes "6 * c * m \<le> length xs"
  shows "snd (cellRows n c m (xs, 0)) = 6 * c * m
       \<and> length (fst (cellRows n c m (xs, 0))) = length xs
       \<and> take (6 * c * m) (fst (cellRows n c m (xs, 0))) = gridIndices n c m"
  using assms
proof (induction m)
  case 0
  then show ?case by (simp add: cellRows_def gridIndices_def)
next
  case (Suc m)
  obtain ys j where r: "cellRows n c m (xs, 0) = (ys, j)" by (cases "cellRows n c m (xs, 0)")
  have le: "6 * c * m \<le> length xs" using Suc.prems by (simp add: algebra_simps)
  have IH: "j = 6 * c * m" "length ys = length xs" "take (6 * c * m) ys = gridIndices n c m"
    using Suc.IH[OF le] r by auto
  have step: "cellRows n c (Suc m) (xs, 0) = cellCols n m c (ys, j)"
    by (simp add: cellRows_def r[unfolded cellRows_def])
  have room: "j + 6 * c \<le> length ys" using Suc.prems IH by (simp add: algebra_simps)
  have gi: "gridIndices n c (Suc m) = gridIndices n c m @ rowIndices n m c"
    by (simp add: gridIndices_def)
  have eq: "6 * c * Suc m = j + 6 * c" using IH(1) by (simp add: algebra_simps)
  show ?case
    using cellCols_take[OF room, of n m] IH unfolding step gi eq by simp
qed

lemma buildMesh_indices:
  assumes "1 \<le> sizeN t"
  shows "indices (buildMesh t) = gridIndices (nat (sizeN t)) (nat (sizeN t - 1)) (nat (sizeN t - 1))"
proof -
  define c where "c = nat (sizeN t - 1)"
  have cc: "nat ((sizeN t - 1) * (sizeN t - 1)) = c * c"
    using assms by (simp add: c_def nat_mult_distrib)
  have len: "6 * c * c \<le> length (replicate (c * c * 6) (0::nat))" by simp
  have "indices (buildMesh t) = fst (cellRows (nat (sizeN t)) c c (replicate (c * c * 6) 0, 0))"
    by (simp add: buildMesh_def Let_def c_def[symmetric] cc)
  moreover have "length (fst (cellRows (nat (sizeN t)) c c (replicate (c * c * 6) 0, 0))) = 6 * c * c"
    using cellRows_take[OF len, of "nat (sizeN t)"] by (simp add: algebra_simps)
  ultimately show ?thesis
    using cellRows_take[OF len, of "nat (sizeN t)"] by (simp add: c_def)
qed

subsection \<open>Face normals\<close>

lemma gridPositions_at:
  assumes "gridPositions cs half n Y ps" "row < n" "col < n"
  shows "fromArray ps ((row * n + col) * 3)
           = (Num (real col * cs - half), Num (Y (row * n + col)), Num (real row * cs - half))"
  using assms by (simp add: gridPositions_def)

lemma jnormalize_upward:
  assumes "0 < q"
  shows "jnormalize (Num p, Num q, Num r) =
           (Num (p * (1 / sqrt (p * p + q * q + r * r))),
            Num (q * (1 / sqrt (p * p + q * q + r * r))),
            Num (r * (1 / sqrt (p * p + q * q + r * r))))
       \<and> 0 < sqrt (p * p + q * q + r * r)"
proof -
  have "0 < q * q" using assms by simp
  moreover have "0 \<le> p * p" "0 \<le> r * r" by simp_all
  ultimately have pos: "0 < p * p + q * q + r * r" by linarith
  then have s: "0 < sqrt (p * p + q * q + r * r)" by simp
  have l: "jlength (Num p, Num q, Num r) = Num (sqrt (p * p + q * q + r * r))"
    using pos by (simp add: jlength_def)
  show ?thesis
    unfolding jnormalize_def Let_def l using s by (simp add: jmultiplyScalar_def)
qed

lemma upward_normalize:
  assumes "0 < q" "flat \<longrightarrow> p = 0 \<and> r = 0"
  shows "upward flat (jnormalize (Num p, Num q, Num r))"
proof -
  let ?s = "sqrt (p * p + q * q + r * r)"
  have n: "jnormalize (Num p, Num q, Num r) = (Num (p * (1 / ?s)), Num (q * (1 / ?s)), Num (r * (1 / ?s)))"
    and s: "0 < ?s" using jnormalize_upward[OF assms(1)] by auto
  have "0 < q * (1 / ?s)" using assms(1) s by simp
  then show ?thesis unfolding n upward_def using assms(2) by auto
qed

text \<open>The two triangles of a cell: \<open>(tl, bl, tr)\<close> and \<open>(tr, bl, br)\<close>.\<close>

lemma faceNormal_first:
  assumes "gridPositions cs half n Y ps" "cs \<noteq> 0" "row + 1 < n" "col + 1 < n"
    and "flat \<longrightarrow> (\<forall>i j. Y i = Y j)"
  shows "upward flat (faceNormal ps (row * n + col) ((row + 1) * n + col) (row * n + col + 1))"
proof -
  have r: "row < n" "col < n" using assms(3,4) by auto
  have tl: "fromArray ps ((row * n + col) * 3)
      = (Num (real col * cs - half), Num (Y (row * n + col)), Num (real row * cs - half))"
    by (rule gridPositions_at[OF assms(1) r])
  have bl: "fromArray ps (((row + 1) * n + col) * 3)
      = (Num (real col * cs - half), Num (Y ((row + 1) * n + col)), Num (real (row + 1) * cs - half))"
    by (rule gridPositions_at[OF assms(1) assms(3) r(2)])
  have tr: "fromArray ps ((row * n + col + 1) * 3)
      = (Num (real (col + 1) * cs - half), Num (Y (row * n + (col + 1))), Num (real row * cs - half))"
    unfolding add.assoc by (rule gridPositions_at[OF assms(1) r(1) assms(4)])
  define d1 where "d1 = Y ((row + 1) * n + col) - Y (row * n + col)"
  define d2 where "d2 = Y (row * n + (col + 1)) - Y (row * n + col)"
  have e1: "subVectors (fromArray ps (((row + 1) * n + col) * 3)) (fromArray ps ((row * n + col) * 3))
              = (Num 0, Num d1, Num cs)"
    unfolding tl bl by (simp add: subVectors_def js_sub_def d1_def algebra_simps)
  have e2: "subVectors (fromArray ps ((row * n + col + 1) * 3)) (fromArray ps ((row * n + col) * 3))
              = (Num cs, Num d2, Num 0)"
    unfolding tl tr by (simp add: subVectors_def js_sub_def d2_def algebra_simps)
  have cr: "crossVectors (Num 0, Num d1, Num cs) (Num cs, Num d2, Num 0)
              = (Num (- (cs * d2)), Num (cs * cs), Num (- (d1 * cs)))"
    by (simp add: crossVectors_def js_sub_def)
  have pos: "0 < cs * cs" using assms(2) by (auto simp: zero_less_mult_iff neq_iff)
  have fl: "flat \<longrightarrow> - (cs * d2) = 0 \<and> - (d1 * cs) = 0"
    using assms(5) by (auto simp: d1_def d2_def)
  show ?thesis
    unfolding faceNormal_def Let_def e1 e2 cr by (rule upward_normalize[OF pos fl])
qed

lemma faceNormal_second:
  assumes "gridPositions cs half n Y ps" "cs \<noteq> 0" "row + 1 < n" "col + 1 < n"
    and "flat \<longrightarrow> (\<forall>i j. Y i = Y j)"
  shows "upward flat (faceNormal ps (row * n + col + 1) ((row + 1) * n + col) ((row + 1) * n + col + 1))"
proof -
  have r: "row < n" "col < n" using assms(3,4) by auto
  have tr: "fromArray ps ((row * n + col + 1) * 3)
      = (Num (real (col + 1) * cs - half), Num (Y (row * n + (col + 1))), Num (real row * cs - half))"
    unfolding add.assoc by (rule gridPositions_at[OF assms(1) r(1) assms(4)])
  have bl: "fromArray ps (((row + 1) * n + col) * 3)
      = (Num (real col * cs - half), Num (Y ((row + 1) * n + col)), Num (real (row + 1) * cs - half))"
    by (rule gridPositions_at[OF assms(1) assms(3) r(2)])
  have br: "fromArray ps (((row + 1) * n + col + 1) * 3)
      = (Num (real (col + 1) * cs - half), Num (Y ((row + 1) * n + (col + 1))),
         Num (real (row + 1) * cs - half))"
    unfolding add.assoc by (rule gridPositions_at[OF assms(1) assms(3) assms(4)])
  define d1 where "d1 = Y ((row + 1) * n + col) - Y (row * n + (col + 1))"
  define d2 where "d2 = Y ((row + 1) * n + (col + 1)) - Y (row * n + (col + 1))"
  have e1: "subVectors (fromArray ps (((row + 1) * n + col) * 3)) (fromArray ps ((row * n + col + 1) * 3))
              = (Num (- cs), Num d1, Num cs)"
    unfolding tr bl by (simp add: subVectors_def js_sub_def d1_def algebra_simps)
  have e2: "subVectors (fromArray ps (((row + 1) * n + col + 1) * 3)) (fromArray ps ((row * n + col + 1) * 3))
              = (Num 0, Num d2, Num cs)"
    unfolding tr br by (simp add: subVectors_def js_sub_def d2_def algebra_simps)
  have cr: "crossVectors (Num (- cs), Num d1, Num cs) (Num 0, Num d2, Num cs)
              = (Num (d1 * cs - cs * d2), Num (cs * cs), Num (- (cs * d2)))"
    by (simp add: crossVectors_def js_sub_def)
  have pos: "0 < cs * cs" using assms(2) by (auto simp: zero_less_mult_iff neq_iff)
  have fl: "flat \<longrightarrow> d1 * cs - cs * d2 = 0 \<and> - (cs * d2) = 0"
    using assms(5) by (auto simp: d1_def d2_def)
  show ?thesis
    unfolding faceNormal_def Let_def e1 e2 cr by (rule upward_normalize[OF pos fl])
qed

subsection \<open>Accumulating the face normals\<close>

lemma accumulated_at:
  assumes "accumulated flat V T ns" "i < V"
  shows "\<exists>a b c. ns ! (i * 3) = Num a \<and> ns ! (i * 3 + 1) = Num b \<and> ns ! (i * 3 + 2) = Num c
                 \<and> 0 \<le> b \<and> (i \<in> T \<longrightarrow> 0 < b) \<and> (flat \<longrightarrow> a = 0 \<and> c = 0)"
  using assms by (simp add: accumulated_def)

lemma addNormal_accumulated:
  assumes "accumulated flat V T ns" "upward flat f" "vi < V"
  shows "accumulated flat V (insert vi T) (addNormal f vi ns)"
proof -
  obtain fx fy fz where f: "f = (Num fx, Num fy, Num fz)" "0 < fy" "flat \<longrightarrow> fx = 0 \<and> fz = 0"
    using assms(2) unfolding upward_def by blast
  obtain a b c where v: "ns ! (vi * 3) = Num a" "ns ! (vi * 3 + 1) = Num b"
      "ns ! (vi * 3 + 2) = Num c" "0 \<le> b" "flat \<longrightarrow> a = 0 \<and> c = 0"
    using accumulated_at[OF assms(1,3)] by blast
  have len: "length ns = V * 3" using assms(1) by (simp add: accumulated_def)
  have inr: "vi * 3 < length ns" "vi * 3 + 1 < length ns" "vi * 3 + 2 < length ns"
    using assms(3) len by auto
  have new: "addNormal f vi ns =
               ns[vi * 3 := Num (a + fx), vi * 3 + 1 := Num (b + fy), vi * 3 + 2 := Num (c + fz)]"
    using inr v(1,2,3) by (simp add: addNormal_def Let_def f(1) tget_def)
  have "\<exists>a' b' c'. addNormal f vi ns ! (i * 3) = Num a' \<and> addNormal f vi ns ! (i * 3 + 1) = Num b'
            \<and> addNormal f vi ns ! (i * 3 + 2) = Num c'
            \<and> 0 \<le> b' \<and> (i \<in> insert vi T \<longrightarrow> 0 < b') \<and> (flat \<longrightarrow> a' = 0 \<and> c' = 0)"
    if i: "i < V" for i
  proof (cases "i = vi")
    case True
    have "addNormal f vi ns ! (vi * 3) = Num (a + fx)"
         "addNormal f vi ns ! (vi * 3 + 1) = Num (b + fy)"
         "addNormal f vi ns ! (vi * 3 + 2) = Num (c + fz)"
      unfolding new using inr by simp_all
    moreover have "0 < b + fy" using v(4) f(2) by simp
    moreover have "flat \<longrightarrow> a + fx = 0 \<and> c + fz = 0" using v(5) f(3) by simp
    ultimately show ?thesis using True by simp
  next
    case False
    then have "i * 3 \<noteq> vi * 3" "i * 3 \<noteq> vi * 3 + 1" "i * 3 \<noteq> vi * 3 + 2"
      "i * 3 + 1 \<noteq> vi * 3" "i * 3 + 1 \<noteq> vi * 3 + 1" "i * 3 + 1 \<noteq> vi * 3 + 2"
      "i * 3 + 2 \<noteq> vi * 3" "i * 3 + 2 \<noteq> vi * 3 + 1" "i * 3 + 2 \<noteq> vi * 3 + 2"
      by presburger+
    then have "addNormal f vi ns ! (i * 3) = ns ! (i * 3)"
         "addNormal f vi ns ! (i * 3 + 1) = ns ! (i * 3 + 1)"
         "addNormal f vi ns ! (i * 3 + 2) = ns ! (i * 3 + 2)"
      unfolding new by simp_all
    then show ?thesis using accumulated_at[OF assms(1) i] False by simp
  qed
  moreover have "length (addNormal f vi ns) = V * 3" unfolding new using len by simp
  ultimately show ?thesis unfolding accumulated_def by blast
qed

lemma triangle_accumulated:
  assumes "accumulated flat V T ns" "upward flat f" "a < V" "b < V" "c < V"
  shows "accumulated flat V (T \<union> {a, b, c}) (fold (addNormal f) [a, b, c] ns)"
proof -
  have 1: "accumulated flat V (insert a T) (addNormal f a ns)"
    by (rule addNormal_accumulated[OF assms(1,2,3)])
  have 2: "accumulated flat V (insert b (insert a T)) (addNormal f b (addNormal f a ns))"
    by (rule addNormal_accumulated[OF 1 assms(2,4)])
  have 3: "accumulated flat V (insert c (insert b (insert a T)))
             (addNormal f c (addNormal f b (addNormal f a ns)))"
    by (rule addNormal_accumulated[OF 2 assms(2,5)])
  have "insert c (insert b (insert a T)) = T \<union> {a, b, c}" by auto
  then show ?thesis using 3 by simp
qed

lemma cell_in_range:
  fixes n row col :: nat
  assumes "row + 1 < n" "col + 1 < n"
  shows "row * n + col < n * n" "row * n + col + 1 < n * n"
        "(row + 1) * n + col < n * n" "(row + 1) * n + col + 1 < n * n"
proof -
  have r: "row < n" "col < n" using assms by simp_all
  show "row * n + col < n * n" by (rule idx_bound[OF r(2) r(1)])
  show "row * n + col + 1 < n * n" unfolding add.assoc by (rule idx_bound[OF assms(2) r(1)])
  show "(row + 1) * n + col < n * n" by (rule idx_bound[OF r(2) assms(1)])
  show "(row + 1) * n + col + 1 < n * n" unfolding add.assoc by (rule idx_bound[OF assms(2) assms(1)])
qed

lemma faceLoop_cell:
  assumes "accumulated flat (n * n) T ns" "gridPositions cs half n Y ps" "cs \<noteq> 0"
    and "row + 1 < n" "col + 1 < n" "flat \<longrightarrow> (\<forall>i j. Y i = Y j)"
  shows "\<exists>ns'. faceLoop ps (cellIndices n row col @ rest) ns = faceLoop ps rest ns'
               \<and> accumulated flat (n * n) (T \<union> cellVerts n row col) ns'"
proof -
  let ?tl = "row * n + col" and ?tr = "row * n + col + 1"
  let ?bl = "(row + 1) * n + col" and ?br = "(row + 1) * n + col + 1"
  let ?f1 = "faceNormal ps ?tl ?bl ?tr" and ?f2 = "faceNormal ps ?tr ?bl ?br"
  let ?ns1 = "fold (addNormal ?f1) [?tl, ?bl, ?tr] ns"
  let ?ns2 = "fold (addNormal ?f2) [?tr, ?bl, ?br] ?ns1"
  note rng = cell_in_range[OF assms(4,5)]
  have u1: "upward flat ?f1" by (rule faceNormal_first[OF assms(2,3,4,5,6)])
  have u2: "upward flat ?f2" by (rule faceNormal_second[OF assms(2,3,4,5,6)])
  have a1: "accumulated flat (n * n) (T \<union> {?tl, ?bl, ?tr}) ?ns1"
    by (rule triangle_accumulated[OF assms(1) u1 rng(1) rng(3) rng(2)])
  have a2: "accumulated flat (n * n) (T \<union> {?tl, ?bl, ?tr} \<union> {?tr, ?bl, ?br}) ?ns2"
    by (rule triangle_accumulated[OF a1 u2 rng(2) rng(3) rng(4)])
  have s: "T \<union> {?tl, ?bl, ?tr} \<union> {?tr, ?bl, ?br} = T \<union> cellVerts n row col"
    by (auto simp: cellVerts_def)
  have "faceLoop ps (cellIndices n row col @ rest) ns = faceLoop ps rest ?ns2"
    by (simp add: cellIndices_def)
  then show ?thesis using a2 unfolding s by blast
qed

lemma faceLoop_row:
  assumes "accumulated flat (n * n) T ns" "gridPositions cs half n Y ps" "cs \<noteq> 0"
    and "row + 1 < n" "m + 1 \<le> n" "flat \<longrightarrow> (\<forall>i j. Y i = Y j)"
  shows "\<exists>ns'. faceLoop ps (rowIndices n row m @ rest) ns = faceLoop ps rest ns'
               \<and> accumulated flat (n * n) (T \<union> (\<Union>col<m. cellVerts n row col)) ns'"
  using assms(5)
proof (induction m arbitrary: rest)
  case 0
  have "faceLoop ps (rowIndices n row 0 @ rest) ns = faceLoop ps rest ns"
    by (simp add: rowIndices_def)
  then show ?case using assms(1) by auto
next
  case (Suc m)
  have ri: "rowIndices n row (Suc m) @ rest = rowIndices n row m @ (cellIndices n row m @ rest)"
    by (simp add: rowIndices_def)
  have "m + 1 \<le> n" using Suc.prems by simp
  from Suc.IH[OF this, of "cellIndices n row m @ rest"]
  obtain ns1 where 1: "faceLoop ps (rowIndices n row m @ (cellIndices n row m @ rest)) ns
                         = faceLoop ps (cellIndices n row m @ rest) ns1"
    and a1: "accumulated flat (n * n) (T \<union> (\<Union>col<m. cellVerts n row col)) ns1" by blast
  have mlt: "m + 1 < n" using Suc.prems by simp
  from faceLoop_cell[OF a1 assms(2,3,4) mlt assms(6), of rest]
  obtain ns2 where 2: "faceLoop ps (cellIndices n row m @ rest) ns1 = faceLoop ps rest ns2"
    and a2: "accumulated flat (n * n)
               (T \<union> (\<Union>col<m. cellVerts n row col) \<union> cellVerts n row m) ns2" by blast
  have s: "T \<union> (\<Union>col<m. cellVerts n row col) \<union> cellVerts n row m
             = T \<union> (\<Union>col<Suc m. cellVerts n row col)"
    by (auto simp: lessThan_Suc)
  show ?case unfolding ri 1 2 using a2 unfolding s by blast
qed

lemma faceLoop_grid:
  assumes "accumulated flat (n * n) T ns" "gridPositions cs half n Y ps" "cs \<noteq> 0"
    and "c + 1 \<le> n" "m + 1 \<le> n" "flat \<longrightarrow> (\<forall>i j. Y i = Y j)"
  shows "\<exists>ns'. faceLoop ps (gridIndices n c m @ rest) ns = faceLoop ps rest ns'
               \<and> accumulated flat (n * n)
                    (T \<union> (\<Union>row<m. \<Union>col<c. cellVerts n row col)) ns'"
  using assms(5)
proof (induction m arbitrary: rest)
  case 0
  have "faceLoop ps (gridIndices n c 0 @ rest) ns = faceLoop ps rest ns"
    by (simp add: gridIndices_def)
  then show ?case using assms(1) by auto
next
  case (Suc m)
  have gi: "gridIndices n c (Suc m) @ rest = gridIndices n c m @ (rowIndices n m c @ rest)"
    by (simp add: gridIndices_def)
  have "m + 1 \<le> n" using Suc.prems by simp
  from Suc.IH[OF this, of "rowIndices n m c @ rest"]
  obtain ns1 where 1: "faceLoop ps (gridIndices n c m @ (rowIndices n m c @ rest)) ns
                         = faceLoop ps (rowIndices n m c @ rest) ns1"
    and a1: "accumulated flat (n * n) (T \<union> (\<Union>row<m. \<Union>col<c. cellVerts n row col)) ns1"
    by blast
  have mlt: "m + 1 < n" using Suc.prems by simp
  from faceLoop_row[OF a1 assms(2,3) mlt assms(4,6), of rest]
  obtain ns2 where 2: "faceLoop ps (rowIndices n m c @ rest) ns1 = faceLoop ps rest ns2"
    and a2: "accumulated flat (n * n)
               (T \<union> (\<Union>row<m. \<Union>col<c. cellVerts n row col) \<union> (\<Union>col<c. cellVerts n m col)) ns2"
    by blast
  have s: "T \<union> (\<Union>row<m. \<Union>col<c. cellVerts n row col) \<union> (\<Union>col<c. cellVerts n m col)
             = T \<union> (\<Union>row<Suc m. \<Union>col<c. cellVerts n row col)"
    by (auto simp: lessThan_Suc)
  show ?case unfolding gi 1 2 using a2 unfolding s by blast
qed

text \<open>In a grid of at least two rows and columns every vertex is a corner of some cell.\<close>

lemma vertex_in_cell:
  assumes "2 \<le> n" "i < n * n"
  shows "i \<in> (\<Union>row<n - 1. \<Union>col<n - 1. cellVerts n row col)"
proof -
  define r where "r = i div n"
  define q where "q = i mod n"
  have npos: "0 < n" using assms(1) by simp
  have q: "q < n" using npos by (simp add: q_def)
  have r: "r < n" using assms(2) npos by (simp add: r_def less_mult_imp_div_less)
  have i: "i = r * n + q" by (simp add: r_def q_def)
  define row where "row = (if r < n - 1 then r else n - 2)"
  define col where "col = (if q < n - 1 then q else n - 2)"
  have row: "row < n - 1" and col: "col < n - 1" using assms(1) by (auto simp: row_def col_def)
  have rr: "r = row \<or> r = row + 1" using r assms(1) by (auto simp: row_def)
  have qq: "q = col \<or> q = col + 1" using q assms(1) by (auto simp: col_def)
  have "i \<in> cellVerts n row col"
    using rr qq unfolding i cellVerts_def by auto
  then show ?thesis using row col by blast
qed

subsection \<open>Normalising the sums\<close>

lemma normalizedUpTo_at:
  assumes "normalizedUpTo flat V m ns" "i < V"
  shows "\<exists>a b c. ns ! (i * 3) = Num a \<and> ns ! (i * 3 + 1) = Num b \<and> ns ! (i * 3 + 2) = Num c
                 \<and> (if i < m then a * a + b * b + c * c = 1 \<and> (flat \<longrightarrow> a = 0 \<and> b = 1 \<and> c = 0)
                     else 0 < b \<and> (flat \<longrightarrow> a = 0 \<and> c = 0))"
  using assms by (simp add: normalizedUpTo_def)

lemma unit_after_normalize:
  fixes a b c :: real
  assumes "0 < b"
  defines "s \<equiv> sqrt (a * a + b * b + c * c)"
  shows "(a * (1 / s)) * (a * (1 / s)) + (b * (1 / s)) * (b * (1 / s)) + (c * (1 / s)) * (c * (1 / s)) = 1"
    and "a = 0 \<and> c = 0 \<longrightarrow> b * (1 / s) = 1"
proof -
  have "0 < b * b" using assms(1) by simp
  moreover have "0 \<le> a * a" "0 \<le> c * c" by simp_all
  ultimately have pos: "0 < a * a + b * b + c * c" by linarith
  then have spos: "0 < s" by (simp add: s_def)
  have ss: "s * s = a * a + b * b + c * c" using pos by (simp add: s_def)
  define k where "k = 1 / s"
  have kk: "k * k * (s * s) = 1" using spos by (simp add: k_def)
  have "(a * k) * (a * k) + (b * k) * (b * k) + (c * k) * (c * k) = k * k * (a * a + b * b + c * c)"
    by (simp add: algebra_simps)
  also have "\<dots> = 1" using kk ss by simp
  finally show "(a * (1 / s)) * (a * (1 / s)) + (b * (1 / s)) * (b * (1 / s)) + (c * (1 / s)) * (c * (1 / s)) = 1"
    by (simp add: k_def)
  show "a = 0 \<and> c = 0 \<longrightarrow> b * (1 / s) = 1"
  proof
    assume z: "a = 0 \<and> c = 0"
    then have "s = b" using assms(1) by (simp add: s_def)
    then show "b * (1 / s) = 1" using assms(1) by simp
  qed
qed

lemma normalizeStep_upTo:
  assumes "normalizedUpTo flat V m ns" "m < V"
  shows "normalizedUpTo flat V (Suc m) (normalizeStep m ns)"
proof -
  obtain a b c where v: "ns ! (m * 3) = Num a" "ns ! (m * 3 + 1) = Num b"
      "ns ! (m * 3 + 2) = Num c" "0 < b" "flat \<longrightarrow> a = 0 \<and> c = 0"
    using normalizedUpTo_at[OF assms, of ] by auto
  have len: "length ns = V * 3" using assms(1) by (simp add: normalizedUpTo_def)
  have inr: "m * 3 < length ns" "m * 3 + 1 < length ns" "m * 3 + 2 < length ns"
    using assms(2) len by auto
  let ?s = "sqrt (a * a + b * b + c * c)"
  have nrm: "jnormalize (tget ns (m * 3), tget ns (m * 3 + 1), tget ns (m * 3 + 2))
               = (Num (a * (1 / ?s)), Num (b * (1 / ?s)), Num (c * (1 / ?s)))"
    using jnormalize_upward[OF v(4), of a c] inr v(1,2,3) by (simp add: tget_def)
  have new: "normalizeStep m ns =
               ns[m * 3 := Num (a * (1 / ?s)), m * 3 + 1 := Num (b * (1 / ?s)),
                  m * 3 + 2 := Num (c * (1 / ?s))]"
    unfolding normalizeStep_def Let_def nrm by simp
  note unit = unit_after_normalize[OF v(4), of a c]
  have "\<exists>a' b' c'. normalizeStep m ns ! (i * 3) = Num a' \<and> normalizeStep m ns ! (i * 3 + 1) = Num b'
            \<and> normalizeStep m ns ! (i * 3 + 2) = Num c'
            \<and> (if i < Suc m then a' * a' + b' * b' + c' * c' = 1 \<and> (flat \<longrightarrow> a' = 0 \<and> b' = 1 \<and> c' = 0)
                else 0 < b' \<and> (flat \<longrightarrow> a' = 0 \<and> c' = 0))"
    if i: "i < V" for i
  proof (cases "i = m")
    case True
    have vals: "normalizeStep m ns ! (m * 3) = Num (a * (1 / ?s))"
         "normalizeStep m ns ! (m * 3 + 1) = Num (b * (1 / ?s))"
         "normalizeStep m ns ! (m * 3 + 2) = Num (c * (1 / ?s))"
      unfolding new using inr by simp_all
    have fl: "flat \<longrightarrow> a * (1 / ?s) = 0 \<and> b * (1 / ?s) = 1 \<and> c * (1 / ?s) = 0"
    proof
      assume flat
      then have z: "a = 0 \<and> c = 0" using v(5) by simp
      then have "b * (1 / ?s) = 1" using unit(2) by blast
      moreover have "a * (1 / ?s) = 0" "c * (1 / ?s) = 0" using z by simp_all
      ultimately show "a * (1 / ?s) = 0 \<and> b * (1 / ?s) = 1 \<and> c * (1 / ?s) = 0" by blast
    qed
    have cond: "if m < Suc m
                then a * (1 / ?s) * (a * (1 / ?s)) + b * (1 / ?s) * (b * (1 / ?s))
                       + c * (1 / ?s) * (c * (1 / ?s)) = 1
                     \<and> (flat \<longrightarrow> a * (1 / ?s) = 0 \<and> b * (1 / ?s) = 1 \<and> c * (1 / ?s) = 0)
                else 0 < b * (1 / ?s) \<and> (flat \<longrightarrow> a * (1 / ?s) = 0 \<and> c * (1 / ?s) = 0)"
      using unit(1) fl by (simp only: lessI if_True simp_thms)
    show ?thesis unfolding True using vals cond by blast
  next
    case False
    then have "i * 3 \<noteq> m * 3" "i * 3 \<noteq> m * 3 + 1" "i * 3 \<noteq> m * 3 + 2"
      "i * 3 + 1 \<noteq> m * 3" "i * 3 + 1 \<noteq> m * 3 + 1" "i * 3 + 1 \<noteq> m * 3 + 2"
      "i * 3 + 2 \<noteq> m * 3" "i * 3 + 2 \<noteq> m * 3 + 1" "i * 3 + 2 \<noteq> m * 3 + 2"
      by presburger+
    then have same: "normalizeStep m ns ! (i * 3) = ns ! (i * 3)"
         "normalizeStep m ns ! (i * 3 + 1) = ns ! (i * 3 + 1)"
         "normalizeStep m ns ! (i * 3 + 2) = ns ! (i * 3 + 2)"
      unfolding new by simp_all
    have "(i < Suc m) = (i < m)" using False by auto
    then show ?thesis using normalizedUpTo_at[OF assms(1) i] unfolding same by simp
  qed
  moreover have "length (normalizeStep m ns) = V * 3" unfolding new using len by simp
  ultimately show ?thesis unfolding normalizedUpTo_def by blast
qed

lemma normalizeLoop_upTo:
  assumes "normalizedUpTo flat V 0 ns" "m \<le> V"
  shows "normalizedUpTo flat V m (normalizeLoop m ns)"
  using assms(2)
proof (induction m)
  case 0
  then show ?case using assms(1) by (simp add: normalizeLoop_def)
next
  case (Suc m)
  have step: "normalizeLoop (Suc m) ns = normalizeStep m (normalizeLoop m ns)"
    by (simp add: normalizeLoop_def)
  have "m < V" using Suc.prems by simp
  then show ?case using normalizeStep_upTo Suc.IH unfolding step by simp
qed

lemma accumulated_all_normalizedUpTo:
  assumes "accumulated flat V T ns" "\<forall>i<V. i \<in> T"
  shows "normalizedUpTo flat V 0 ns"
proof -
  have "\<exists>a b c. ns ! (i * 3) = Num a \<and> ns ! (i * 3 + 1) = Num b \<and> ns ! (i * 3 + 2) = Num c
            \<and> 0 < b \<and> (flat \<longrightarrow> a = 0 \<and> c = 0)" if "i < V" for i
    using accumulated_at[OF assms(1) that] assms(2) that by auto
  moreover have "length ns = V * 3" using assms(1) by (simp add: accumulated_def)
  ultimately show ?thesis by (simp add: normalizedUpTo_def)
qed

subsection \<open>The built mesh\<close>

lemma vertexStep_lengths:
  "length (fst (snd (vertexStep t n row col st))) = length (fst (snd st))
 \<and> length (snd (snd (vertexStep t n row col st))) = length (snd (snd st))"
  by (cases st) (simp add: vertexStep_def Let_def)

lemma vertexCols_lengths:
  "length (fst (snd (vertexCols t n row m st))) = length (fst (snd st))
 \<and> length (snd (snd (vertexCols t n row m st))) = length (snd (snd st))"
  by (induction m) (simp_all add: vertexCols_def vertexStep_lengths)

lemma vertexRows_lengths:
  "length (fst (snd (vertexRows t n m st))) = length (fst (snd st))
 \<and> length (snd (snd (vertexRows t n m st))) = length (snd (snd st))"
  by (induction m) (simp_all add: vertexRows_def vertexCols_lengths)

lemma buildMesh_positions:
  "positions (buildMesh t) =
     fst (vertexRows t (nat (sizeN t)) (nat (sizeN t))
            (replicate (nat (sizeN t * sizeN t) * 3) (Num 0),
             replicate (nat (sizeN t * sizeN t) * 2) (Num 0),
             replicate (nat (sizeN t * sizeN t) * 3) (Num 0)))"
  by (simp add: buildMesh_def Let_def)

lemma buildMesh_normals_eq:
  "normals (buildMesh t) =
     normalizeLoop (nat (sizeN t * sizeN t))
       (faceLoop (positions (buildMesh t)) (indices (buildMesh t))
          (replicate (nat (sizeN t * sizeN t) * 3) (Num 0)))"
  by (simp add: buildMesh_def Let_def map_replicate_const)

lemma triple_index:
  fixes i :: nat
  shows "(i * 3) div 3 = i" "(i * 3) mod 3 = 0"
        "(i * 3 + 1) div 3 = i" "(i * 3 + 1) mod 3 = 1"
        "(i * 3 + 2) div 3 = i" "(i * 3 + 2) mod 3 = 2"
  by presburger+

lemma buildMesh_gridPositions:
  assumes "2 \<le> sizeN t" and "length (heights t) = nat (sizeN t * sizeN t)"
    and "finite_samples (heights t)" and "cellSize t = Num cs"
  shows "gridPositions cs (worldSize t / 2) (nat (sizeN t)) (vertexHeight t (nat (sizeN t)))
           (positions (buildMesh t))
       \<and> length (positions (buildMesh t)) = nat (sizeN t) * nat (sizeN t) * 3"
proof -
  define n where "n = nat (sizeN t)"
  let ?ps = "positions (buildMesh t)"
  have one: "1 \<le> sizeN t" using assms(1) by simp
  have nn: "nat (sizeN t * sizeN t) = n * n" using assms(1) by (simp add: n_def nat_mult_distrib)
  have w: "posWritten t n {k. k < n * n} ?ps" and len: "length ?ps = n * n * 3"
    using vertexRows_written[OF le_refl, of t n] unfolding buildMesh_positions n_def[symmetric] nn
    by simp_all
  have "fromArray ?ps ((row * n + col) * 3)
          = (Num (real col * cs - worldSize t / 2), Num (vertexHeight t n (row * n + col)),
             Num (real row * cs - worldSize t / 2))"
    if rc: "row < n" "col < n" for row col
  proof -
    let ?i = "row * n + col"
    have i: "?i < n * n" by (rule idx_bound[OF rc(2) rc(1)])
    have dm: "?i div n = row" "?i mod n = col" using rc(2) by auto
    have k0: "?i * 3 < length ?ps" and k1: "?i * 3 + 1 < length ?ps"
      and k2: "?i * 3 + 2 < length ?ps"
      using i len by auto
    have wr: "?ps ! k = posValue t n k" if "k < length ?ps" "k div 3 = ?i" for k
      using w that i by (simp add: posWritten_def)
    have p0: "?ps ! (?i * 3) = vertexCoord t (int col)"
      unfolding wr[OF k0 triple_index(1)] posValue_def Let_def triple_index dm by simp
    have p1: "?ps ! (?i * 3 + 1) = getHeight t (Num (of_int (int row))) (Num (of_int (int col)))"
      unfolding wr[OF k1 triple_index(3)] posValue_def Let_def triple_index dm by simp
    have p2: "?ps ! (?i * 3 + 2) = vertexCoord t (int row)"
      unfolding wr[OF k2 triple_index(5)] posValue_def Let_def triple_index dm by simp
    obtain y where y: "getHeight t (Num (of_int (int row))) (Num (of_int (int col))) = Num y"
      using getHeight_finite[OF one assms(2,3)] by blast
    have vh: "vertexHeight t n ?i = y" unfolding vertexHeight_def dm y by simp
    have vc: "vertexCoord t (int k) = Num (real k * cs - worldSize t / 2)" for k
      by (simp add: vertexCoord_def assms(4) js_sub_def)
    have g0: "tget ?ps (?i * 3) = ?ps ! (?i * 3)" using k0 by (simp add: tget_def)
    have g1: "tget ?ps (?i * 3 + 1) = ?ps ! (?i * 3 + 1)" using k1 by (simp add: tget_def)
    have g2: "tget ?ps (?i * 3 + 2) = ?ps ! (?i * 3 + 2)" using k2 by (simp add: tget_def)
    show ?thesis
      unfolding fromArray_def g0 g1 g2 p0 p1 p2 y vh vc ..
  qed
  then show ?thesis using len unfolding gridPositions_def n_def by blast
qed

lemma flat_heights:
  assumes "2 \<le> sizeN t" and "length (heights t) = nat (sizeN t * sizeN t)"
    and "flat_grid (heights t)"
  shows "vertexHeight t n i = vertexHeight t n j"
proof -
  have one: "1 \<le> sizeN t" using assms(1) by simp
  have same: "heights t ! k = hd (heights t)" if "k < length (heights t)" for k
    using assms(3) that by (simp add: flat_grid_def list_all_length)
  have g: "getHeight t (Num (of_int r)) (Num (of_int c))
          = js_add (js_mul (hd (heights t)) (Num (heightScale t))) (Num (heightOffset t))" for r c
  proof -
    let ?r = "clampIndex (sizeN t) r" and ?c = "clampIndex (sizeN t) c"
    have "0 \<le> ?r" "?r < sizeN t" "0 \<le> ?c" "?c < sizeN t"
      using clampIndex_range[OF one] by auto
    from grid_index_in_range[OF this assms(2)]
    have "nat (?r * sizeN t + ?c) < length (heights t)" by simp
    then show ?thesis using getHeight_int[OF one assms(2), of r c] same by simp
  qed
  show ?thesis unfolding vertexHeight_def g ..
qed

text \<open>
  Claim C6. For a terrain with grid size \<open>N \<ge> 2\<close>, \<open>N * N\<close> finite samples, a non-zero world
  size and the cell size derived from it, the mesh built by \<open>buildMesh\<close> has \<open>N * N\<close>
  vertices (three position and normal components, two texture coordinates and three
  colour components each) and \<open>6 * (N - 1) * (N - 1)\<close> triangle indices; every per-vertex
  normal has finite components whose squares sum to 1; and when all samples are equal
  every per-vertex normal is \<open>(0, 1, 0)\<close>. In this model of exact arithmetic the length is
  exactly 1.
\<close>

theorem buildMesh_counts_and_normals:
  assumes "2 \<le> sizeN t" and "length (heights t) = nat (sizeN t * sizeN t)"
    and "finite_samples (heights t)"
    and "worldSize t \<noteq> 0"
    and "cellSize t = js_div (Num (worldSize t)) (Num (of_int (sizeN t - 1)))"
  shows "length (positions (buildMesh t)) = nat (sizeN t * sizeN t) * 3
       \<and> length (normals (buildMesh t)) = nat (sizeN t * sizeN t) * 3
       \<and> length (uvs (buildMesh t)) = nat (sizeN t * sizeN t) * 2
       \<and> length (colors (buildMesh t)) = nat (sizeN t * sizeN t) * 3
       \<and> length (indices (buildMesh t)) = 6 * nat ((sizeN t - 1) * (sizeN t - 1))
       \<and> (\<forall>i < nat (sizeN t * sizeN t).
            \<exists>a b c. normals (buildMesh t) ! (i * 3) = Num a
                  \<and> normals (buildMesh t) ! (i * 3 + 1) = Num b
                  \<and> normals (buildMesh t) ! (i * 3 + 2) = Num c
                  \<and> a * a + b * b + c * c = 1
                  \<and> (flat_grid (heights t) \<longrightarrow> a = 0 \<and> b = 1 \<and> c = 0))"
proof -
  define n where "n = nat (sizeN t)"
  define c where "c = nat (sizeN t - 1)"
  define cs where "cs = worldSize t / of_int (sizeN t - 1)"
  define flat where "flat = flat_grid (heights t)"
  let ?m = "buildMesh t"
  have one: "1 \<le> sizeN t" using assms(1) by simp
  have n2: "2 \<le> n" using assms(1) by (simp add: n_def)
  have cn: "c = n - 1" "c + 1 \<le> n" using assms(1) by (simp_all add: c_def n_def)
  have nn: "nat (sizeN t * sizeN t) = n * n" using assms(1) by (simp add: n_def nat_mult_distrib)
  have cc: "nat ((sizeN t - 1) * (sizeN t - 1)) = c * c"
    using assms(1) by (simp add: c_def nat_mult_distrib)
  have csnz: "cs \<noteq> 0" using assms(1,4) by (simp add: cs_def)
  have cell: "cellSize t = Num cs" using assms(1,5) by (simp add: cs_def)
  have gp: "gridPositions cs (worldSize t / 2) n (vertexHeight t n) (positions ?m)"
    and lp: "length (positions ?m) = n * n * 3"
    using buildMesh_gridPositions[OF assms(1,2,3) cell] by (simp_all add: n_def)
  have ix: "indices ?m = gridIndices n c c"
    using buildMesh_indices[OF one] by (simp add: n_def c_def)
  have fl: "flat \<longrightarrow> (\<forall>i j. vertexHeight t n i = vertexHeight t n j)"
    using flat_heights[OF assms(1,2)] by (simp add: flat_def)
  have init: "accumulated flat (n * n) {} (replicate (n * n * 3) (Num 0))"
    by (simp add: accumulated_def)
  from faceLoop_grid[OF init gp csnz cn(2) cn(2) fl, of "[]"]
  obtain ns where ns: "faceLoop (positions ?m) (gridIndices n c c) (replicate (n * n * 3) (Num 0)) = ns"
    and acc: "accumulated flat (n * n) ({} \<union> (\<Union>row<c. \<Union>col<c. cellVerts n row col)) ns"
    by auto
  have "\<forall>i<n * n. i \<in> {} \<union> (\<Union>row<c. \<Union>col<c. cellVerts n row col)"
    using vertex_in_cell[OF n2] unfolding cn(1) by blast
  from accumulated_all_normalizedUpTo[OF acc this]
  have "normalizedUpTo flat (n * n) 0 ns" .
  from normalizeLoop_upTo[OF this le_refl]
  have fin: "normalizedUpTo flat (n * n) (n * n) (normalizeLoop (n * n) ns)" .
  have nm: "normals ?m = normalizeLoop (n * n) ns"
    unfolding buildMesh_normals_eq ix nn ns ..
  have lens: "length (uvs ?m) = n * n * 2" "length (colors ?m) = n * n * 3"
    using vertexRows_lengths[of t n n] by (simp_all add: buildMesh_def Let_def n_def[symmetric] nn)
  have unit: "\<exists>a b c. normals ?m ! (i * 3) = Num a \<and> normals ?m ! (i * 3 + 1) = Num b
                  \<and> normals ?m ! (i * 3 + 2) = Num c \<and> a * a + b * b + c * c = 1
                  \<and> (flat \<longrightarrow> a = 0 \<and> b = 1 \<and> c = 0)" if "i < n * n" for i
    using normalizedUpTo_at[OF fin that] that unfolding nm by simp
  have ln: "length (normals ?m) = n * n * 3" using fin unfolding nm normalizedUpTo_def by simp
  have li: "length (indices ?m) = 6 * (c * c)" unfolding ix by simp
  show ?thesis
    unfolding nn cc flat_def[symmetric] using lp ln lens li unit by blast
qed

theorem buildMesh_counts_and_normals_witness:
  "2 \<le> sizeN \<lparr> heights = [Num (1/2), Num (1/2), Num (1/2), Num (1/2)], sizeN = 2, cols = 1,
        worldSize = 4, heightScale = 10, heightOffset = 0, cellSize = Num 4 \<rparr>
   \<and> finite_samples [Num (1/2), Num (1/2), Num (1/2), Num (1/2)]
   \<and> flat_grid [Num (1/2), Num (1/2), Num (1/2), Num (1/2)]
   \<and> js_div (Num 4) (Num (of_int (2 - 1))) = Num 4
   \<and> length (positions (buildMesh \<lparr> heights = [Num (1/2), Num (1/2), Num (1/2), Num (1/2)],
        sizeN = 2, cols = 1, worldSize = 4, heightScale = 10, heightOffset = 0,
        cellSize = Num 4 \<rparr>)) = 12
   \<and> length (indices (buildMesh \<lparr> heights = [Num (1/2), Num (1/2), Num (1/2), Num (1/2)],
        sizeN = 2, cols = 1, worldSize = 4, heightScale = 10, heightOffset = 0,
        cellSize = Num 4 \<rparr>)) = 6
   \<and> normals (buildMesh \<lparr> heights = [Num (1/2), Num (1/2), Num (1/2), Num (1/2)],
        sizeN = 2, cols = 1, worldSize = 4, heightScale = 10, heightOffset = 0,
        cellSize = Num 4 \<rparr>) ! 9 = Num 0
   \<and> normals (buildMesh \<lparr> heights = [Num (1/2), Num (1/2), Num (1/2), Num (1/2)],
        sizeN = 2, cols = 1, worldSize = 4, heightScale = 10, heightOffset = 0,
        cellSize = Num 4 \<rparr>) ! 10 = Num 1
   \<and> normals (buildMesh \<lparr> heights = [Num (1/2), Num (1/2), Num (1/2), Num (1/2)],
        sizeN = 2, cols = 1, worldSize = 4, heightScale = 10, heightOffset = 0,
        cellSize = Num 4 \<rparr>) ! 11 = Num 0"
proof -
  let ?t = "\<lparr> heights = [Num (1/2), Num (1/2), Num (1/2), Num (1/2)], sizeN = 2, cols = 1,
        worldSize = 4, heightScale = 10, heightOffset = 0, cellSize = Num 4 \<rparr>"
  have h1: "2 \<le> sizeN ?t" by simp
  have h2: "length (heights ?t) = nat (sizeN ?t * sizeN ?t)" by simp
  have h3: "finite_samples (heights ?t)" by (simp add: finite_samples_def)
  have h4: "worldSize ?t \<noteq> 0" by simp
  have h5: "cellSize ?t = js_div (Num (worldSize ?t)) (Num (of_int (sizeN ?t - 1)))" by simp
  have fl: "flat_grid (heights ?t)" by (simp add: flat_grid_def)
  note main = buildMesh_counts_and_normals[OF h1 h2 h3 h4 h5]
  have i: "(3::nat) < nat (sizeN ?t * sizeN ?t)" by simp
  from main[THEN conjunct2, THEN conjunct2, THEN conjunct2, THEN conjunct2, THEN conjunct2,
            rule_format, OF i]
  obtain a b c where n: "normals (buildMesh ?t) ! (3 * 3) = Num a"
      "normals (buildMesh ?t) ! (3 * 3 + 1) = Num b" "normals (buildMesh ?t) ! (3 * 3 + 2) = Num c"
      "flat_grid (heights ?t) \<longrightarrow> a = 0 \<and> b = 1 \<and> c = 0"
    by blast
  have "a = 0" "b = 1" "c = 0" using n(4) fl by simp_all
  then have "normals (buildMesh ?t) ! 9 = Num 0" "normals (buildMesh ?t) ! 10 = Num 1"
    "normals (buildMesh ?t) ! 11 = Num 0"
    using n(1,2,3) by simp_all
  then show ?thesis using main h1 h3 fl by simp
qed

end
